theory Spec2Isabelle
  imports Main "HOL-Library.AList"
begin

section \<open>The central data store of the Kolkata Chronicle demo site (data.js)\<close>

text \<open>
  The development embeds the \<^verbatim>\<open>DATA_STORE\<close> object of data.js together with the
  \<^verbatim>\<open>Validators\<close> and \<^verbatim>\<open>StorageUtils\<close> helpers it calls.

  JavaScript objects and arrays are mutable and shared by reference, and several
  operations of the store hand such references to their callers or mutate a record in
  place, so the embedding keeps an explicit heap: a list of cells addressed by position,
  where a cell is an object (its own properties, in insertion order) or an array.

  Scope of the value model:
  \<^item> numbers are the integer-valued doubles (\<open>Num n\<close>) and \<open>NaN\<close>; fractions and
    infinities do not arise in the modelled operations. Ids, view counts and timestamps
    are integers. Where the source does arithmetic on numbers that can leave the range
    of exactly representable integers (the id generator), the rounding of doubles is
    written out (\<open>round_double\<close>);
  \<^item> strings are lists of bytes, the UTF-8 encoding of the text;
  \<^item> objects are plain data objects: they hold no functions and do not shadow
    \<^verbatim>\<open>hasOwnProperty\<close> or \<^verbatim>\<open>toString\<close>;
  \<^item> \<^verbatim>\<open>console\<close> output and \<^verbatim>\<open>alert\<close> are not part of the state.
\<close>

subsection \<open>Values, heap cells, the heap\<close>

datatype jsval =
    Undefined
  | Null
  | Bool bool
  | Num int
  | NaN
  | Str string
  | Ref nat

type_synonym props = "(string \<times> jsval) list"

datatype cell = Obj props | Arr "jsval list"

type_synonym heap = "cell list"

definition cell_at :: "heap \<Rightarrow> nat \<Rightarrow> cell option" where
  "cell_at h r = (if r < length h then Some (h ! r) else None)"

text \<open>Allocation appends a cell; its address is the old length of the heap.\<close>

definition alloc :: "cell \<Rightarrow> heap \<Rightarrow> nat \<times> heap" where
  "alloc c h = (length h, h @ [c])"

text \<open>Truthiness (\<^verbatim>\<open>!x\<close>, \<^verbatim>\<open>x || y\<close>, \<^verbatim>\<open>x ? a : b\<close>).\<close>

fun truthy :: "jsval \<Rightarrow> bool" where
  "truthy Undefined = False"
| "truthy Null = False"
| "truthy (Bool b) = b"
| "truthy (Num n) = (n \<noteq> 0)"
| "truthy NaN = False"
| "truthy (Str s) = (s \<noteq> [])"
| "truthy (Ref r) = True"

text \<open>\<^verbatim>\<open>typeof x === 'object'\<close> and \<^verbatim>\<open>typeof x === 'number'\<close>.\<close>

fun typeof_object :: "jsval \<Rightarrow> bool" where
  "typeof_object Null = True"
| "typeof_object (Ref r) = True"
| "typeof_object _ = False"

fun typeof_number :: "jsval \<Rightarrow> bool" where
  "typeof_number (Num n) = True"
| "typeof_number NaN = True"
| "typeof_number _ = False"

text \<open>Strict equality \<^verbatim>\<open>a === b\<close>: references compare by address, \<open>NaN\<close> equals nothing.\<close>

definition strict_eq :: "jsval \<Rightarrow> jsval \<Rightarrow> bool" where
  "strict_eq a b = (a = b \<and> a \<noteq> NaN)"

text \<open>
  The length of a string in JavaScript counts UTF-16 code units: one for each character
  of one to three bytes, two for each character of four bytes.
\<close>

definition utf16_length :: "string \<Rightarrow> nat" where
  "utf16_length s =
     length (filter (\<lambda>c. (of_char c :: nat) < 128 \<or> 192 \<le> (of_char c :: nat)) s)
     + length (filter (\<lambda>c. 240 \<le> (of_char c :: nat)) s)"

text \<open>
  Reading a property \<^verbatim>\<open>v.k\<close>. \<open>None\<close> is the TypeError raised on \<^verbatim>\<open>undefined\<close> and
  \<^verbatim>\<open>null\<close> (and stands for a dangling address, which JavaScript cannot produce).
  The store only reads data field names (\<^verbatim>\<open>id\<close>, \<^verbatim>\<open>status\<close>, \<^verbatim>\<open>articles\<close>, ...),
  never an array index or a method name through this path.
\<close>

fun get_prop :: "heap \<Rightarrow> jsval \<Rightarrow> string \<Rightarrow> jsval option" where
  "get_prop h Undefined k = None"
| "get_prop h Null k = None"
| "get_prop h (Ref r) k =
     (case cell_at h r of
        None \<Rightarrow> None
      | Some (Obj ps) \<Rightarrow> Some (case map_of ps k of None \<Rightarrow> Undefined | Some v \<Rightarrow> v)
      | Some (Arr xs) \<Rightarrow> Some (if k = ''length'' then Num (int (length xs)) else Undefined))"
| "get_prop h (Str s) k = Some (if k = ''length'' then Num (int (utf16_length s)) else Undefined)"
| "get_prop h (Bool b) k = Some Undefined"
| "get_prop h (Num n) k = Some Undefined"
| "get_prop h NaN k = Some Undefined"

text \<open>
  \<^verbatim>\<open>v.hasOwnProperty(k)\<close>, for the field names the validators and the sanitizer test
  (none of them an array index).
\<close>

fun has_own :: "heap \<Rightarrow> jsval \<Rightarrow> string \<Rightarrow> bool option" where
  "has_own h Undefined k = None"
| "has_own h Null k = None"
| "has_own h (Ref r) k =
     (case cell_at h r of
        None \<Rightarrow> None
      | Some (Obj ps) \<Rightarrow> Some (k \<in> set (map fst ps))
      | Some (Arr xs) \<Rightarrow> Some (k = ''length''))"
| "has_own h (Str s) k = Some (k = ''length'')"
| "has_own h (Bool b) k = Some False"
| "has_own h (Num n) k = Some False"
| "has_own h NaN k = Some False"

text \<open>
  \<^verbatim>\<open>Object.assign(target, src)\<close> and the object spread \<^verbatim>\<open>{...target, ...src}\<close> on
  property lists: every property of \<open>src\<close>, in order, is written to the target; a key
  the target has keeps its position, a new key is appended. No key is ever removed.
\<close>

definition assign :: "props \<Rightarrow> props \<Rightarrow> props" where
  "assign target src = foldl (\<lambda>t (k, v). AList.update k v t) target src"

subsection \<open>Constants\<close>

definition KEY_ARTICLES :: string where
  "KEY_ARTICLES = ''kcc_articles''"

definition KEY_USERS :: string where
  "KEY_USERS = ''kcc_users''"

text \<open>\<^verbatim>\<open>Object.values(ARTICLE_STATUS)\<close> and \<^verbatim>\<open>Object.values(USER_ROLES)\<close>.\<close>

definition ARTICLE_STATUS :: "jsval list" where
  "ARTICLE_STATUS = [Str ''draft'', Str ''review'', Str ''published'']"

definition USER_ROLES :: "jsval list" where
  "USER_ROLES = [Str ''admin'', Str ''author'', Str ''editor'', Str ''reader'']"

subsection \<open>Validators\<close>

definition article_required :: "string list" where
  "article_required =
     [''title'', ''category'', ''summary'', ''content'', ''author'', ''authorId'', ''status'']"

definition user_required :: "string list" where
  "user_required = [''id'', ''name'', ''email'', ''role'']"

text \<open>
  \<^verbatim>\<open>Validators.isValidArticle\<close>. After the first guard the argument is a reference, so
  the property tests cannot raise.
\<close>

definition js_includes :: "jsval list \<Rightarrow> jsval \<Rightarrow> bool" where
  \<comment> \<open>\<^verbatim>\<open>xs.includes(v)\<close>: SameValueZero, under which \<open>NaN\<close> is found.\<close>
  "js_includes xs v = (v \<in> set xs)"

definition hasRequired :: "heap \<Rightarrow> jsval \<Rightarrow> string list \<Rightarrow> bool" where
  "hasRequired h v required = list_all (\<lambda>field. has_own h v field = Some True) required"

definition prop_satisfies :: "heap \<Rightarrow> jsval \<Rightarrow> string \<Rightarrow> (jsval \<Rightarrow> bool) \<Rightarrow> bool" where
  "prop_satisfies h v k P = (case get_prop h v k of None \<Rightarrow> False | Some x \<Rightarrow> P x)"

definition isValidArticle :: "heap \<Rightarrow> jsval \<Rightarrow> bool" where
  "isValidArticle h article =
     (if \<not> truthy article \<or> \<not> typeof_object article then False
      else if \<not> hasRequired h article article_required then False
      else if \<not> prop_satisfies h article ''status'' (js_includes ARTICLE_STATUS) then False
      else if \<not> prop_satisfies h article ''authorId'' typeof_number then False
      else True)"

definition isValidUser :: "heap \<Rightarrow> jsval \<Rightarrow> bool" where
  "isValidUser h user =
     (if \<not> truthy user \<or> \<not> typeof_object user then False
      else if \<not> hasRequired h user user_required then False
      else if \<not> prop_satisfies h user ''role'' (js_includes USER_ROLES) then False
      else if \<not> prop_satisfies h user ''id'' typeof_number then False
      else True)"

definition allowed_updates :: "string list" where
  "allowed_updates =
     [''title'', ''category'', ''image'', ''summary'', ''content'',
      ''status'', ''views'', ''engagement'', ''publishDate'']"

text \<open>
  \<^verbatim>\<open>Validators.sanitizeArticleUpdates\<close>: the loop over the allow-list. \<open>None\<close> is the
  TypeError of \<^verbatim>\<open>updates.hasOwnProperty\<close> when \<open>updates\<close> is \<^verbatim>\<open>undefined\<close> or
  \<^verbatim>\<open>null\<close>.
\<close>

fun sanitize_loop :: "heap \<Rightarrow> jsval \<Rightarrow> string list \<Rightarrow> props \<Rightarrow> props option" where
  "sanitize_loop h updates [] sanitized = Some sanitized"
| "sanitize_loop h updates (key # keys) sanitized =
     (case has_own h updates key of
        None \<Rightarrow> None
      | Some False \<Rightarrow> sanitize_loop h updates keys sanitized
      | Some True \<Rightarrow>
          (case get_prop h updates key of
             None \<Rightarrow> None
           | Some v \<Rightarrow> sanitize_loop h updates keys (AList.update key v sanitized)))"

definition sanitizeArticleUpdates :: "heap \<Rightarrow> jsval \<Rightarrow> props option" where
  "sanitizeArticleUpdates h updates = sanitize_loop h updates allowed_updates []"

subsection \<open>Numbers: double rounding and \<^verbatim>\<open>parseInt\<close>\<close>

fun nbits :: "nat \<Rightarrow> nat" where
  "nbits n = (if n = 0 then 0 else Suc (nbits (n div 2)))"

declare nbits.simps [simp del]

text \<open>
  The double nearest to an integer (ties to the even significand). Integers of fewer than
  54 bits are exact; above, the low \<open>k\<close> bits are rounded away. Overflow to infinity
  (beyond \<open>2 ^ 1024\<close>) is outside the model.
\<close>

definition round_double :: "int \<Rightarrow> int" where
  "round_double n =
     (let a = nat \<bar>n\<bar>; k = nbits a - 53
      in if k = 0 then n
         else let q = a div 2 ^ k; r = a mod 2 ^ k; half = 2 ^ (k - 1);
                  q' = (if half < r \<or> (r = half \<and> odd q) then q + 1 else q)
              in sgn n * int (q' * 2 ^ k))"

text \<open>
  The white space and line terminator characters that \<^verbatim>\<open>parseInt\<close> skips, as byte
  sequences: tab, line feed, vertical tab, form feed, carriage return, space, U+00A0,
  U+1680, U+2000 to U+200A, U+2028, U+2029, U+202F, U+205F, U+3000, U+FEFF.
\<close>

definition StrWhiteSpaceChar :: "string list" where
  "StrWhiteSpaceChar =
     [[CHR 0x09], [CHR 0x0A], [CHR 0x0B], [CHR 0x0C], [CHR 0x0D], [CHR 0x20],
      [CHR 0xC2, CHR 0xA0], [CHR 0xE1, CHR 0x9A, CHR 0x80],
      [CHR 0xE2, CHR 0x80, CHR 0x80], [CHR 0xE2, CHR 0x80, CHR 0x81],
      [CHR 0xE2, CHR 0x80, CHR 0x82], [CHR 0xE2, CHR 0x80, CHR 0x83],
      [CHR 0xE2, CHR 0x80, CHR 0x84], [CHR 0xE2, CHR 0x80, CHR 0x85],
      [CHR 0xE2, CHR 0x80, CHR 0x86], [CHR 0xE2, CHR 0x80, CHR 0x87],
      [CHR 0xE2, CHR 0x80, CHR 0x88], [CHR 0xE2, CHR 0x80, CHR 0x89],
      [CHR 0xE2, CHR 0x80, CHR 0x8A], [CHR 0xE2, CHR 0x80, CHR 0xA8],
      [CHR 0xE2, CHR 0x80, CHR 0xA9], [CHR 0xE2, CHR 0x80, CHR 0xAF],
      [CHR 0xE2, CHR 0x81, CHR 0x9F], [CHR 0xE3, CHR 0x80, CHR 0x80],
      [CHR 0xEF, CHR 0xBB, CHR 0xBF]]"

text \<open>
  Dropping leading white space. Every step drops at least one byte, so fuel equal to the
  length of the string never runs out.
\<close>

fun skip_ws_fuel :: "nat \<Rightarrow> string \<Rightarrow> string" where
  "skip_ws_fuel 0 s = s"
| "skip_ws_fuel (Suc fuel) s =
     (case List.find (\<lambda>w. take (length w) s = w) StrWhiteSpaceChar of
        None \<Rightarrow> s
      | Some w \<Rightarrow> skip_ws_fuel fuel (drop (length w) s))"

definition skip_ws :: "string \<Rightarrow> string" where
  "skip_ws s = skip_ws_fuel (length s) s"

definition digit_val :: "char \<Rightarrow> nat option" where
  "digit_val c =
     (let n = (of_char c :: nat)
      in if 48 \<le> n \<and> n \<le> 57 then Some (n - 48)
         else if 97 \<le> n \<and> n \<le> 122 then Some (n - 87)
         else if 65 \<le> n \<and> n \<le> 90 then Some (n - 55)
         else None)"

fun digits_prefix :: "nat \<Rightarrow> string \<Rightarrow> nat list" where
  "digits_prefix R [] = []"
| "digits_prefix R (c # cs) =
     (case digit_val c of
        None \<Rightarrow> []
      | Some d \<Rightarrow> if d < R then d # digits_prefix R cs else [])"

text \<open>
  \<^verbatim>\<open>parseInt(s)\<close> on a string, no radix argument: leading white space, an optional
  sign, an optional \<^verbatim>\<open>0x\<close> prefix, then the longest run of digits; \<open>NaN\<close> when the run
  is empty. The value is the double nearest to the digits' value.
\<close>

definition parseInt_str :: "string \<Rightarrow> jsval" where
  "parseInt_str s =
     (let s1 = skip_ws s;
          (sign, s2) = (case s1 of
                          c # cs \<Rightarrow> if c = CHR ''-'' then (- 1 :: int, cs)
                                    else if c = CHR ''+'' then (1, cs) else (1, s1)
                        | [] \<Rightarrow> (1, s1));
          (R, s3) = (case s2 of
                       c # d # cs \<Rightarrow> if c = CHR ''0'' \<and> (d = CHR ''x'' \<or> d = CHR ''X'')
                                        then (16 :: nat, cs) else (10, s2)
                     | _ \<Rightarrow> (10, s2));
          ds = digits_prefix R s3
      in if ds = [] then NaN
         else Num (sign * round_double (int (foldl (\<lambda>acc d. acc * R + d) 0 ds))))"

text \<open>
  The decimal digits of a number, and the first digit of the string JavaScript gives a
  number of magnitude \<open>10 ^ 21\<close> or more. That string is in exponent form; its digits are
  the shortest that read back as the same double. With \<open>d\<close> the first digit of the
  number's own decimal expansion, the first digit of the string is \<open>d\<close>, unless the
  next round value \<open>(d + 1) * 10 ^ (D - 1)\<close> already reads back as the number (as
  \<open>10 ^ 23\<close> does for the double just below it, which is printed \<^verbatim>\<open>1e+23\<close>).
\<close>

fun ndigits :: "nat \<Rightarrow> nat" where
  "ndigits n = (if n = 0 then 0 else Suc (ndigits (n div 10)))"

declare ndigits.simps [simp del]

definition exponent_lead :: "nat \<Rightarrow> nat" where
  "exponent_lead v =
     (let p = 10 ^ (ndigits v - 1); d = v div p
      in if round_double (int ((d + 1) * p)) = int v then (if d = 9 then 1 else d + 1)
         else d)"

text \<open>
  \<^verbatim>\<open>parseInt(v)\<close> converts its argument to a string first. For an integer-valued number
  of magnitude below \<open>10 ^ 21\<close> the string is its decimal expansion, which reads back as
  the same number. From \<open>10 ^ 21\<close> on the string is in exponent form (\<^verbatim>\<open>1e+21\<close>,
  \<^verbatim>\<open>-1.5e+22\<close>), of which \<^verbatim>\<open>parseInt\<close> reads the sign and the first digit only.
  \<^verbatim>\<open>undefined\<close>, \<^verbatim>\<open>null\<close>, booleans and plain objects give strings that start with
  a letter or a bracket. An array gives its elements' strings joined by commas, so only
  the first element counts (an \<^verbatim>\<open>undefined\<close> or \<^verbatim>\<open>null\<close> element gives the empty
  string); an array met again while it is being joined gives the empty string, which is
  what running out of fuel stands for.
\<close>

fun parseInt_fuel :: "heap \<Rightarrow> nat \<Rightarrow> jsval \<Rightarrow> jsval" where
  "parseInt_fuel h fuel (Num n) =
     (if \<bar>n\<bar> < 10 ^ 21 then Num n else Num (sgn n * int (exponent_lead (nat \<bar>n\<bar>))))"
| "parseInt_fuel h fuel NaN = NaN"
| "parseInt_fuel h fuel (Str s) = parseInt_str s"
| "parseInt_fuel h fuel Undefined = NaN"
| "parseInt_fuel h fuel Null = NaN"
| "parseInt_fuel h fuel (Bool b) = NaN"
| "parseInt_fuel h 0 (Ref r) = NaN"
| "parseInt_fuel h (Suc fuel) (Ref r) =
     (case cell_at h r of
        Some (Arr (x # xs)) \<Rightarrow> parseInt_fuel h fuel x
      | _ \<Rightarrow> NaN)"

definition parseInt :: "heap \<Rightarrow> jsval \<Rightarrow> jsval" where
  "parseInt h v = parseInt_fuel h (length h) v"

definition isNaN :: "jsval \<Rightarrow> bool" where
  \<comment> \<open>applied to results of \<open>parseInt\<close> only, which are numbers\<close>
  "isNaN v = (v = NaN)"

subsection \<open>JSON text and the persistent store\<close>

text \<open>
  The text kept under a key of \<^verbatim>\<open>localStorage\<close> is held as the value tree it parses
  to; \<open>Unparseable\<close> stands for any text \<^verbatim>\<open>JSON.parse\<close> rejects (the empty string
  included, which \<^verbatim>\<open>safeLocalStorageGet\<close> treats like an absent key).
\<close>

datatype json =
    JNull
  | JBool bool
  | JNum int
  | JStr string
  | JArr "json list"
  | JObj "(string \<times> json) list"

datatype stored = Unparseable | Parsed json

text \<open>
  \<^verbatim>\<open>JSON.stringify\<close>: \<open>None\<close> is the TypeError raised on a cyclic structure. A chain of
  nested references longer than the heap must visit a cell twice, so fuel equal to the
  size of the heap runs out exactly on cycles. A property holding \<^verbatim>\<open>undefined\<close> is left
  out of an object; in an array \<^verbatim>\<open>undefined\<close> and \<open>NaN\<close> are written \<^verbatim>\<open>null\<close>.
\<close>

fun ser :: "heap \<Rightarrow> nat \<Rightarrow> jsval \<Rightarrow> json option" where
  "ser h fuel Undefined = Some JNull"
| "ser h fuel Null = Some JNull"
| "ser h fuel NaN = Some JNull"
| "ser h fuel (Bool b) = Some (JBool b)"
| "ser h fuel (Num n) = Some (JNum n)"
| "ser h fuel (Str s) = Some (JStr s)"
| "ser h 0 (Ref r) = None"
| "ser h (Suc fuel) (Ref r) =
     (case cell_at h r of
        None \<Rightarrow> None
      | Some (Arr xs) \<Rightarrow> map_option JArr (those (map (ser h fuel) xs))
      | Some (Obj ps) \<Rightarrow>
          map_option JObj
            (those (map (\<lambda>(k, v). map_option (Pair k) (ser h fuel v))
                      (filter (\<lambda>(k, v). v \<noteq> Undefined) ps))))"

definition stringify :: "heap \<Rightarrow> jsval \<Rightarrow> json option" where
  "stringify h v = ser h (length h) v"


subsection \<open>The store and its environment\<close>

text \<open>
  \<^verbatim>\<open>DATA_STORE\<close>: \<open>articles\<close> and \<open>users\<close> are the addresses of the arrays that
  \<^verbatim>\<open>this.articles\<close> and \<^verbatim>\<open>this.users\<close> refer to (they refer to arrays at all times:
  \<^verbatim>\<open>loadFromLocalStorage\<close> tests \<^verbatim>\<open>Array.isArray\<close> and \<^verbatim>\<open>importData\<close> calls
  \<^verbatim>\<open>every\<close> on what it installs). \<open>localStorage\<close> is the browser's persistent store.
\<close>

record store =
  mem :: heap
  articles :: nat
  users :: nat
  localStorage :: "string \<Rightarrow> stored option"

text \<open>
  What an operation reads from outside the store: the clock, the random number generator,
  and whether \<^verbatim>\<open>localStorage.setItem\<close> on a key completes or raises (quota exceeded).
\<close>

record env =
  now_iso :: string  \<comment> \<open>\<^verbatim>\<open>new Date().toISOString()\<close>\<close>
  now_ms :: int  \<comment> \<open>\<^verbatim>\<open>Date.now()\<close>\<close>
  random :: int  \<comment> \<open>\<^verbatim>\<open>Math.floor(Math.random() * 10000)\<close>\<close>
  setItem_ok :: "string \<Rightarrow> bool"

text \<open>The array a reference points to; \<open>None\<close> when it is not an array.\<close>

definition array_at :: "heap \<Rightarrow> nat \<Rightarrow> jsval list option" where
  "array_at h r = (case cell_at h r of Some (Arr xs) \<Rightarrow> Some xs | _ \<Rightarrow> None)"


text \<open>
  The own properties of an object value, as a spread \<^verbatim>\<open>{...v}\<close> enumerates them: each
  key once, with the value a read of the key gives (an object of JavaScript has no key
  twice, so on the property lists the operations build this is the list itself).
\<close>

definition own_props :: "heap \<Rightarrow> jsval \<Rightarrow> props" where
  "own_props h v =
     (case v of
        Ref r \<Rightarrow> (case cell_at h r of Some (Obj ps) \<Rightarrow> AList.clearjunk ps | _ \<Rightarrow> [])
      | _ \<Rightarrow> [])"

text \<open>The own property \<open>k\<close> of the object at an address: \<open>None\<close> when it has none.\<close>

definition own_field :: "heap \<Rightarrow> nat \<Rightarrow> string \<Rightarrow> jsval option" where
  "own_field h r k = (case cell_at h r of Some (Obj ps) \<Rightarrow> map_of ps k | _ \<Rightarrow> None)"

text \<open>In-place mutation of the object at an address.\<close>

definition object_assign :: "nat \<Rightarrow> props \<Rightarrow> heap \<Rightarrow> heap" where
  "object_assign r src h =
     (case cell_at h r of Some (Obj ps) \<Rightarrow> h[r := Obj (assign ps src)] | _ \<Rightarrow> h)"

definition set_prop :: "nat \<Rightarrow> string \<Rightarrow> jsval \<Rightarrow> heap \<Rightarrow> heap" where
  "set_prop r k v h = object_assign r [(k, v)] h"

subsection \<open>Array methods with callbacks\<close>

text \<open>
  The callbacks read \<^verbatim>\<open>a.id\<close>, which raises when an element is \<^verbatim>\<open>undefined\<close> or
  \<^verbatim>\<open>null\<close>; \<open>None\<close> is that exception.
\<close>

fun js_find :: "(jsval \<Rightarrow> bool option) \<Rightarrow> jsval list \<Rightarrow> jsval option" where
  "js_find p [] = Some Undefined"
| "js_find p (a # as) =
     (case p a of
        None \<Rightarrow> None
      | Some True \<Rightarrow> Some a
      | Some False \<Rightarrow> js_find p as)"

fun js_findIndex :: "(jsval \<Rightarrow> bool option) \<Rightarrow> jsval list \<Rightarrow> nat option option" where
  "js_findIndex p [] = Some None"
| "js_findIndex p (a # as) =
     (case p a of
        None \<Rightarrow> None
      | Some True \<Rightarrow> Some (Some 0)
      | Some False \<Rightarrow> map_option (map_option Suc) (js_findIndex p as))"

definition id_is :: "heap \<Rightarrow> jsval \<Rightarrow> jsval \<Rightarrow> bool option" where
  \<comment> \<open>\<^verbatim>\<open>a => a.id === v\<close>\<close>
  "id_is h v a = map_option (\<lambda>i. strict_eq i v) (get_prop h a ''id'')"

subsection \<open>Persistence\<close>

definition safeLocalStorageSet :: "env \<Rightarrow> string \<Rightarrow> jsval \<Rightarrow> store \<Rightarrow> bool \<times> store" where
  "safeLocalStorageSet e key v s =
     (case stringify (mem s) v of
        None \<Rightarrow> (False, s)
      | Some j \<Rightarrow>
          if setItem_ok e key
          then (True, s\<lparr>localStorage := (localStorage s)(key \<mapsto> Parsed j)\<rparr>)
          else (False, s))"

definition saveToLocalStorage :: "env \<Rightarrow> store \<Rightarrow> bool \<times> store" where
  "saveToLocalStorage e s =
     (case safeLocalStorageSet e KEY_ARTICLES (Ref (articles s)) s of
        (articlesSuccess, s1) \<Rightarrow>
          (case safeLocalStorageSet e KEY_USERS (Ref (users s1)) s1 of
             (usersSuccess, s2) \<Rightarrow> (articlesSuccess \<and> usersSuccess, s2)))"




















subsection \<open>Article getters\<close>

definition getArticleById :: "store \<Rightarrow> jsval \<Rightarrow> jsval" where
  "getArticleById s ident =
     (let articleId = parseInt (mem s) ident
      in if isNaN articleId then Null
         else (case array_at (mem s) (articles s) of
                 None \<Rightarrow> Null
               | Some xs \<Rightarrow>
                   (case js_find (id_is (mem s) articleId) xs of
                      None \<Rightarrow> Null
                    | Some a \<Rightarrow> if truthy a then a else Null)))"

text \<open>\<^verbatim>\<open>getArticles\<close> has no handler: \<open>None\<close> is an exception that reaches the caller.\<close>

definition getArticles :: "store \<Rightarrow> (jsval \<times> store) option" where
  "getArticles s =
     (case array_at (mem s) (articles s) of
        None \<Rightarrow> None
      | Some xs \<Rightarrow> (case alloc (Arr xs) (mem s) of (a, h') \<Rightarrow> Some (Ref a, s\<lparr>mem := h'\<rparr>)))"

definition exportData :: "env \<Rightarrow> store \<Rightarrow> jsval \<times> store" where
  "exportData e s =
     (case alloc (Obj [(''articles'', Ref (articles s)), (''users'', Ref (users s)),
                       (''exportedAt'', Str (now_iso e)), (''version'', Str ''1.0'')]) (mem s)
      of (a, h') \<Rightarrow> (Ref a, s\<lparr>mem := h'\<rparr>))"

subsection \<open>Id generation\<close>

text \<open>
  \<^verbatim>\<open>while (existingIds.includes(newId)) newId++\<close>. Above \<open>2 ^ 53\<close> the increment can
  round back to the same double, so the loop need not end: \<open>None\<close> is a loop that runs
  forever.
\<close>

partial_function (option) uniq_loop :: "jsval list \<Rightarrow> int \<Rightarrow> int option" where
  "uniq_loop existingIds newId =
     (if js_includes existingIds (Num newId)
      then uniq_loop existingIds (round_double (newId + 1))
      else Some newId)"

definition generateUniqueId :: "env \<Rightarrow> jsval list \<Rightarrow> int option" where
  "generateUniqueId e existingIds =
     uniq_loop existingIds (round_double (round_double (now_ms e * 10000) + random e))"

subsection \<open>Article mutations\<close>

text \<open>
  Each operation returns its result and the store it leaves. An exception inside the
  body is caught by the operation's handler, which returns the failure value and leaves
  the store as it is at that point. Objects that no longer have a reference when the
  operation returns (\<^verbatim>\<open>existingIds\<close>, \<^verbatim>\<open>sanitizedUpdates\<close>, the \<^verbatim>\<open>backup\<close> of
  \<^verbatim>\<open>updateArticle\<close>) are used as values and take no cell of the heap.
\<close>

definition new_article_props :: "int \<Rightarrow> props \<Rightarrow> string \<Rightarrow> props" where
  \<comment> \<open>\<^verbatim>\<open>{ id: newId, views: 0, engagement: 0, publishDate: null, ...articleData, createdAt }\<close>\<close>
  "new_article_props newId articleData createdAt =
     assign
       (assign [(''id'', Num newId), (''views'', Num 0), (''engagement'', Num 0),
                (''publishDate'', Null)] articleData)
       [(''createdAt'', Str createdAt)]"

definition array_push :: "nat \<Rightarrow> jsval \<Rightarrow> heap \<Rightarrow> heap" where
  "array_push r v h = (case array_at h r of Some xs \<Rightarrow> h[r := Arr (xs @ [v])] | None \<Rightarrow> h)"

definition array_pop :: "nat \<Rightarrow> heap \<Rightarrow> heap" where
  "array_pop r h = (case array_at h r of Some xs \<Rightarrow> h[r := Arr (butlast xs)] | None \<Rightarrow> h)"

text \<open>\<open>None\<close>: the call does not return (the id loop runs forever).\<close>

definition addArticle :: "env \<Rightarrow> jsval \<Rightarrow> store \<Rightarrow> (jsval \<times> store) option" where
  "addArticle e articleData s =
     (if \<not> isValidArticle (mem s) articleData then Some (Null, s)
      else (case array_at (mem s) (articles s) of
              None \<Rightarrow> Some (Null, s)
            | Some xs \<Rightarrow>
                (case those (map (\<lambda>a. get_prop (mem s) a ''id'') xs) of
                   None \<Rightarrow> Some (Null, s)
                 | Some existingIds \<Rightarrow>
                     (case generateUniqueId e existingIds of
                        None \<Rightarrow> None
                      | Some newId \<Rightarrow>
                          (case alloc (Obj (new_article_props newId
                                              (own_props (mem s) articleData) (now_iso e)))
                                  (mem s)
                           of (newArticle, h1) \<Rightarrow>
                             (case saveToLocalStorage e
                                     (s\<lparr>mem := array_push (articles s) (Ref newArticle) h1\<rparr>)
                              of (saved, s2) \<Rightarrow>
                                if saved then Some (Ref newArticle, s2)
                                else Some (Null,
                                           s2\<lparr>mem := array_pop (articles s2) (mem s2)\<rparr>)))))))"

definition updateArticle :: "env \<Rightarrow> jsval \<Rightarrow> jsval \<Rightarrow> store \<Rightarrow> bool \<times> store" where
  "updateArticle e articleId updates s =
     (let parsedId = parseInt (mem s) articleId
      in if isNaN parsedId then (False, s)
         else (case getArticleById s parsedId of
                 Ref article \<Rightarrow>
                   (case sanitizeArticleUpdates (mem s) updates of
                      None \<Rightarrow> (False, s)
                    | Some sanitizedUpdates \<Rightarrow>
                        (let backup = own_props (mem s) (Ref article);
                             s1 = s\<lparr>mem := object_assign article [(''updatedAt'', Str (now_iso e))]
                                             (object_assign article sanitizedUpdates (mem s))\<rparr>
                         in if \<not> isValidArticle (mem s1) (Ref article)
                            then (False, s1\<lparr>mem := object_assign article backup (mem s1)\<rparr>)
                            else (case saveToLocalStorage e s1 of
                                    (saved, s2) \<Rightarrow>
                                      if saved then (True, s2)
                                      else (False,
                                            s2\<lparr>mem := object_assign article backup (mem s2)\<rparr>))))
               | _ \<Rightarrow> (False, s)))"

definition date_part :: "string \<Rightarrow> string" where
  \<comment> \<open>\<^verbatim>\<open>iso.split('T')[0]\<close>\<close>
  "date_part stamp = takeWhile (\<lambda>c. c \<noteq> CHR ''T'') stamp"

text \<open>
  The shape of \<^verbatim>\<open>toISOString()\<close> for the years 0 to 9999,
  \<^verbatim>\<open>YYYY-MM-DDTHH:mm:ss.sssZ\<close>, and of its date part \<^verbatim>\<open>YYYY-MM-DD\<close>.
\<close>

definition is_digit :: "char \<Rightarrow> bool" where
  "is_digit c = (48 \<le> (of_char c :: nat) \<and> (of_char c :: nat) \<le> 57)"

definition is_date :: "string \<Rightarrow> bool" where
  "is_date d =
     (length d = 10 \<and> list_all (\<lambda>i. is_digit (d ! i)) [0, 1, 2, 3, 5, 6, 8, 9]
      \<and> d ! 4 = CHR ''-'' \<and> d ! 7 = CHR ''-'')"

definition isISOString :: "string \<Rightarrow> bool" where
  "isISOString stamp =
     (length stamp = 24 \<and> is_date (take 10 stamp) \<and> stamp ! 10 = CHR ''T''
      \<and> list_all (\<lambda>i. is_digit (stamp ! i)) [11, 12, 14, 15, 17, 18, 20, 21, 22]
      \<and> stamp ! 13 = CHR '':'' \<and> stamp ! 16 = CHR '':'' \<and> stamp ! 19 = CHR ''.''
      \<and> stamp ! 23 = CHR ''Z'')"

definition the_prop :: "heap \<Rightarrow> nat \<Rightarrow> string \<Rightarrow> jsval" where
  \<comment> \<open>\<^verbatim>\<open>article.k\<close> for a reference, which cannot raise\<close>
  "the_prop h r k = (case get_prop h (Ref r) k of None \<Rightarrow> Undefined | Some v \<Rightarrow> v)"

definition updateArticleStatus :: "env \<Rightarrow> jsval \<Rightarrow> jsval \<Rightarrow> store \<Rightarrow> bool \<times> store" where
  "updateArticleStatus e articleId newStatus s =
     (if \<not> js_includes ARTICLE_STATUS newStatus then (False, s)
      else (case getArticleById s articleId of
              Ref article \<Rightarrow>
                (let oldStatus = the_prop (mem s) article ''status'';
                     h1 = set_prop article ''status'' newStatus (mem s);
                     h2 = (if newStatus = Str ''published''
                              \<and> \<not> truthy (the_prop h1 article ''publishDate'')
                           then set_prop article ''publishDate'' (Str (date_part (now_iso e))) h1
                           else h1)
                 in (case saveToLocalStorage e (s\<lparr>mem := h2\<rparr>) of
                       (saved, s2) \<Rightarrow>
                         if saved then (True, s2)
                         else (False, s2\<lparr>mem := set_prop article ''status'' oldStatus (mem s2)\<rparr>)))
            | _ \<Rightarrow> (False, s)))"

definition array_remove :: "nat \<Rightarrow> nat \<Rightarrow> heap \<Rightarrow> heap" where
  \<comment> \<open>\<^verbatim>\<open>splice(index, 1)\<close>\<close>
  "array_remove r index h =
     (case array_at h r of
        Some xs \<Rightarrow> h[r := Arr (take index xs @ drop (Suc index) xs)]
      | None \<Rightarrow> h)"

definition array_insert :: "nat \<Rightarrow> nat \<Rightarrow> jsval \<Rightarrow> heap \<Rightarrow> heap" where
  \<comment> \<open>\<^verbatim>\<open>splice(index, 0, v)\<close>\<close>
  "array_insert r index v h =
     (case array_at h r of
        Some xs \<Rightarrow> h[r := Arr (take index xs @ v # drop index xs)]
      | None \<Rightarrow> h)"

definition deleteArticle :: "env \<Rightarrow> jsval \<Rightarrow> store \<Rightarrow> bool \<times> store" where
  "deleteArticle e articleId s =
     (let parsedId = parseInt (mem s) articleId
      in if isNaN parsedId then (False, s)
         else (case array_at (mem s) (articles s) of
                 None \<Rightarrow> (False, s)
               | Some xs \<Rightarrow>
                   (case js_findIndex (id_is (mem s) parsedId) xs of
                      None \<Rightarrow> (False, s)
                    | Some None \<Rightarrow> (False, s)
                    | Some (Some index) \<Rightarrow>
                        (let deletedArticle = xs ! index
                         in (case saveToLocalStorage e
                                    (s\<lparr>mem := array_remove (articles s) index (mem s)\<rparr>)
                             of (saved, s2) \<Rightarrow>
                               if saved then (True, s2)
                               else (False,
                                     s2\<lparr>mem := array_insert (articles s2) index deletedArticle
                                                   (mem s2)\<rparr>))))))"

subsection \<open>Import\<close>

text \<open>
  \<^verbatim>\<open>xs.every(f)\<close> for a validator \<open>f\<close>; \<open>None\<close> is the TypeError raised when \<open>xs\<close> is
  not an array (it has no method \<^verbatim>\<open>every\<close>).
\<close>

definition js_every :: "heap \<Rightarrow> (jsval \<Rightarrow> bool) \<Rightarrow> jsval \<Rightarrow> bool option" where
  "js_every h f v =
     (case v of
        Ref r \<Rightarrow> map_option (list_all f) (array_at h r)
      | _ \<Rightarrow> None)"

definition ref_addr :: "jsval \<Rightarrow> nat" where
  "ref_addr v = (case v of Ref r \<Rightarrow> r | _ \<Rightarrow> 0)"

definition importData :: "env \<Rightarrow> jsval \<Rightarrow> store \<Rightarrow> bool \<times> store" where
  "importData e data s =
     (if \<not> truthy data then (False, s)
      else (case (get_prop (mem s) data ''articles'', get_prop (mem s) data ''users'') of
              (Some dataArticles, Some dataUsers) \<Rightarrow>
                if \<not> truthy dataArticles \<or> \<not> truthy dataUsers then (False, s)
                else (case (js_every (mem s) (isValidArticle (mem s)) dataArticles,
                            js_every (mem s) (isValidUser (mem s)) dataUsers) of
                        (Some articlesValid, Some usersValid) \<Rightarrow>
                          if \<not> articlesValid \<or> \<not> usersValid then (False, s)
                          else (case (array_at (mem s) (articles s), array_at (mem s) (users s)) of
                                  (Some as, Some us) \<Rightarrow>
                                    (case alloc (Arr as) (mem s) of
                                       (backupArticles, h1) \<Rightarrow>
                                         (case alloc (Arr us) h1 of
                                            (backupUsers, h2) \<Rightarrow>
                                              (case saveToLocalStorage e
                                                      (s\<lparr>mem := h2,
                                                         articles := ref_addr dataArticles,
                                                         users := ref_addr dataUsers\<rparr>)
                                               of (saved, s2) \<Rightarrow>
                                                 if saved then (True, s2)
                                                 else (False, s2\<lparr>articles := backupArticles,
                                                                  users := backupUsers\<rparr>))))
                                | _ \<Rightarrow> (False, s))
                      | _ \<Rightarrow> (False, s))
            | _ \<Rightarrow> (False, s)))"

section \<open>Example states\<close>

text \<open>
  A clock, a random number and the outcome of the two key writes; a small store holding
  one draft article and one user; and a way to put a caller's argument objects on the
  heap.
\<close>

definition demo_env :: "bool \<Rightarrow> bool \<Rightarrow> env" where
  "demo_env okA okU =
     \<lparr>now_iso = ''2024-10-20T08:30:00.000Z'', now_ms = 1729413000000, random = 4321,
      setItem_ok = (\<lambda>key. if key = KEY_ARTICLES then okA else okU)\<rparr>"

definition demo_article :: props where
  "demo_article =
     [(''id'', Num 1), (''title'', Str ''T''), (''category'', Str ''C''),
      (''summary'', Str ''S''), (''content'', Str ''X''), (''author'', Str ''A''),
      (''authorId'', Num 1), (''status'', Str ''draft''), (''publishDate'', Null)]"

definition demo_user :: props where
  "demo_user =
     [(''id'', Num 1), (''name'', Str ''A''), (''email'', Str ''a@kcc.in''),
      (''role'', Str ''author'')]"

definition demo_store :: store where
  "demo_store =
     \<lparr>mem = [Obj demo_article, Arr [Ref 0], Obj demo_user, Arr [Ref 2]],
      articles = 1, users = 3,
      localStorage = Map.empty\<rparr>"

definition with_cells :: "cell list \<Rightarrow> store \<Rightarrow> store" where
  "with_cells cs s = s\<lparr>mem := mem s @ cs\<rparr>"

text \<open>An import payload whose second article has no \<^verbatim>\<open>content\<close>.\<close>

definition bad_import :: "cell list" where
  "bad_import =
     [Obj (AList.delete ''content'' demo_article), Arr [Ref 0, Ref 4], Arr [Ref 2],
      Obj [(''articles'', Ref 5), (''users'', Ref 6)]]"

text \<open>
  Code outside the store that holds a reference \<open>v\<close> to an object and assigns
  \<^verbatim>\<open>v.k = x\<close>.
\<close>

definition caller_sets :: "jsval \<Rightarrow> string \<Rightarrow> jsval \<Rightarrow> store \<Rightarrow> store" where
  "caller_sets v k x s = (case v of Ref r \<Rightarrow> s\<lparr>mem := set_prop r k x (mem s)\<rparr> | _ \<Rightarrow> s)"

text \<open>
  The persistent store agrees with the collections in memory: each key holds the text
  that \<^verbatim>\<open>JSON.stringify\<close> gives for the collection now.
\<close>

definition in_sync :: "store \<Rightarrow> bool" where
  "in_sync s =
     (stringify (mem s) (Ref (articles s)) \<noteq> None
      \<and> localStorage s KEY_ARTICLES = map_option Parsed (stringify (mem s) (Ref (articles s)))
      \<and> stringify (mem s) (Ref (users s)) \<noteq> None
      \<and> localStorage s KEY_USERS = map_option Parsed (stringify (mem s) (Ref (users s))))"

text \<open>The small store after a save in which both writes complete.\<close>

definition demo_synced :: store where
  "demo_synced = snd (saveToLocalStorage (demo_env True True) demo_store)"

text \<open>A valid article as a caller passes it to \<^verbatim>\<open>addArticle\<close>, carrying an \<^verbatim>\<open>id\<close>.\<close>

definition new_article_data :: "cell list" where
  "new_article_data =
     [Obj [(''id'', Num 999), (''title'', Str ''N''), (''category'', Str ''C''),
           (''summary'', Str ''S''), (''content'', Str ''X''), (''author'', Str ''A''),
           (''authorId'', Num 1), (''status'', Str ''draft'')]]"

text \<open>The JSON text of the article of the small store, and of that new article once stored.\<close>

definition demo_article_json :: json where
  "demo_article_json =
     JObj [(''id'', JNum 1), (''title'', JStr ''T''), (''category'', JStr ''C''),
           (''summary'', JStr ''S''), (''content'', JStr ''X''), (''author'', JStr ''A''),
           (''authorId'', JNum 1), (''status'', JStr ''draft''), (''publishDate'', JNull)]"

definition new_article_json :: json where
  "new_article_json =
     JObj [(''id'', JNum 999), (''views'', JNum 0), (''engagement'', JNum 0),
           (''publishDate'', JNull), (''title'', JStr ''N''), (''category'', JStr ''C''),
           (''summary'', JStr ''S''), (''content'', JStr ''X''), (''author'', JStr ''A''),
           (''authorId'', JNum 1), (''status'', JStr ''draft''),
           (''createdAt'', JStr ''2024-10-20T08:30:00.000Z'')]"

text \<open>The updates object \<^verbatim>\<open>{ title: 'New', image: 'x.png' }\<close>.\<close>

definition some_updates :: "cell list" where
  "some_updates = [Obj [(''title'', Str ''New''), (''image'', Str ''x.png'')]]"

text \<open>The updates object \<^verbatim>\<open>{ id: 999, evil: 'x', title: 'New' }\<close>.\<close>

definition spec_updates :: "cell list" where
  "spec_updates = [Obj [(''id'', Num 999), (''evil'', Str ''x''), (''title'', Str ''New'')]]"


text \<open>A store holding two draft articles, with ids 1 and 2, and one user.\<close>

definition second_article :: props where
  "second_article =
     [(''id'', Num 2), (''title'', Str ''U''), (''category'', Str ''C''),
      (''summary'', Str ''S''), (''content'', Str ''X''), (''author'', Str ''A''),
      (''authorId'', Num 1), (''status'', Str ''draft''), (''publishDate'', Null)]"

definition two_articles :: store where
  "two_articles =
     \<lparr>mem = [Obj demo_article, Obj second_article, Arr [Ref 0, Ref 1], Obj demo_user,
             Arr [Ref 3]],
      articles = 2, users = 4, localStorage = Map.empty\<rparr>"

section \<open>Intermediate heaps of the update operations\<close>

text \<open>
  The heap after \<^verbatim>\<open>Object.assign(article, sanitizedUpdates, { updatedAt })\<close> in
  \<^verbatim>\<open>updateArticle\<close>.
\<close>

definition touched :: "env \<Rightarrow> nat \<Rightarrow> props \<Rightarrow> heap \<Rightarrow> heap" where
  "touched e r san h = object_assign r [(''updatedAt'', Str (now_iso e))] (object_assign r san h)"

text \<open>
  The heap after \<^verbatim>\<open>updateArticleStatus\<close> has set the status and, when publishing a
  record without a publish date, the date.
\<close>

definition status_step :: "env \<Rightarrow> nat \<Rightarrow> jsval \<Rightarrow> heap \<Rightarrow> heap" where
  "status_step e r newStatus h =
     (let h1 = set_prop r ''status'' newStatus h
      in if newStatus = Str ''published'' \<and> \<not> truthy (the_prop h1 r ''publishDate'')
         then set_prop r ''publishDate'' (Str (date_part (now_iso e))) h1
         else h1)"

section \<open>The shape invariant and the reachable states\<close>





section \<open>Basic facts\<close>

lemma nbits_0: "nbits 0 = 0"
  by (simp add: nbits.simps)

lemma nbits_1: "nbits (Suc 0) = Suc 0"
  by (simp add: nbits.simps)

lemma nbits_num: "nbits (numeral k) = Suc (nbits (numeral k div 2))"
  by (subst nbits.simps) simp

lemmas nbits_eval = nbits_0 nbits_1 nbits_num

lemma ndigits_0: "ndigits 0 = 0"
  by (simp add: ndigits.simps)

lemma ndigits_1: "ndigits (Suc 0) = Suc 0"
  by (simp add: ndigits.simps)

lemma ndigits_num: "ndigits (numeral k) = Suc (ndigits (numeral k div 10))"
  by (subst ndigits.simps) simp

lemmas ndigits_eval = ndigits_0 ndigits_1 ndigits_num

text \<open>The equations that evaluate the operations on a concrete store.\<close>

lemmas eval_simps =
  parseInt_def parseInt_str_def skip_ws_def StrWhiteSpaceChar_def digit_val_def
  round_double_def nbits_eval exponent_lead_def ndigits_eval
  isNaN_def id_is_def strict_eq_def Let_def getArticleById_def array_at_def cell_at_def
  js_includes_def ARTICLE_STATUS_def USER_ROLES_def the_prop_def set_prop_def
  object_assign_def assign_def saveToLocalStorage_def safeLocalStorageSet_def stringify_def
  KEY_ARTICLES_def KEY_USERS_def date_part_def demo_env_def demo_article_def demo_user_def
  second_article_def two_articles_def
  demo_store_def with_cells_def isValidArticle_def isValidUser_def hasRequired_def
  prop_satisfies_def article_required_def user_required_def js_every_def

subsection \<open>\<^verbatim>\<open>parseInt\<close> returns a number\<close>

lemma parseInt_str_cases: "parseInt_str s = NaN \<or> (\<exists>n. parseInt_str s = Num n)"
  by (simp add: parseInt_str_def Let_def split: prod.splits)

lemma parseInt_fuel_cases: "parseInt_fuel h f v = NaN \<or> (\<exists>n. parseInt_fuel h f v = Num n)"
proof (induction h f v rule: parseInt_fuel.induct)
  case (3 h fuel s)
  then show ?case using parseInt_str_cases [of s] by simp
next
  case (8 h fuel r)
  then show ?case by (auto split: option.splits cell.splits list.splits)
qed simp_all

lemma parseInt_cases: "parseInt h v = NaN \<or> (\<exists>n. parseInt h v = Num n)"
  unfolding parseInt_def by (rule parseInt_fuel_cases)


lemma parseInt_NaN [simp]: "parseInt h NaN = NaN"
  by (simp add: parseInt_def)


lemma parseInt_exponent_form:
  "parseInt h (Num (10 ^ 21)) = Num 1"
  "parseInt h (Num (- 2000000000000000000000)) = Num (- 2)"
  "parseInt h (Num 99999999999999991611392) = Num 1"
  "parseInt h (Str ''1000000000000000000000'') = Num (10 ^ 21)"
  by (simp_all add: eval_simps)

lemmas eval_ops =
  eval_simps addArticle_def updateArticle_def updateArticleStatus_def deleteArticle_def
  importData_def alloc_def array_push_def array_pop_def new_article_props_def own_props_def
  sanitizeArticleUpdates_def allowed_updates_def generateUniqueId_def

lemma uniq_loop_fresh: "\<not> js_includes existingIds (Num n) \<Longrightarrow> uniq_loop existingIds n = Some n"
  by (subst uniq_loop.simps) simp

subsection \<open>Saving touches the persistent store only\<close>

lemma save_frame:
  "saveToLocalStorage e s = (ok, s') \<Longrightarrow>
     mem s' = mem s \<and> articles s' = articles s \<and> users s' = users s"
  by (auto simp: saveToLocalStorage_def safeLocalStorageSet_def
      split: option.splits if_splits prod.splits)

subsection \<open>Arrays and lookups\<close>

lemma array_at_append: "r < length h \<Longrightarrow> array_at (h @ cs) r = array_at h r"
  by (simp add: array_at_def cell_at_def nth_append)

lemma array_at_Some_less: "array_at h r = Some xs \<Longrightarrow> r < length h"
  by (auto simp: array_at_def cell_at_def split: if_splits)

lemma array_at_push:
  "array_at h r = Some xs \<Longrightarrow> array_at (array_push r v h) r = Some (xs @ [v])"
  by (auto simp: array_push_def array_at_def cell_at_def split: if_splits)

lemma js_find_result:
  "js_find p xs = Some a \<Longrightarrow> a = Undefined \<or> (a \<in> set xs \<and> p a = Some True)"
  by (induction xs) (auto split: option.splits bool.splits)

lemma getArticleById_Ref:
  assumes "getArticleById s x = Ref r"
  shows "\<exists>xs. array_at (mem s) (articles s) = Some xs \<and> Ref r \<in> set xs
           \<and> id_is (mem s) (parseInt (mem s) x) (Ref r) = Some True"
  using assms js_find_result
  by (fastforce simp: getArticleById_def Let_def split: option.splits if_splits)

text \<open>What \<^verbatim>\<open>getArticleById\<close> finds is an object: only an object has an \<^verbatim>\<open>id\<close>.\<close>

lemma getArticleById_Obj:
  assumes "getArticleById s x = Ref r"
  shows "\<exists>ps. cell_at (mem s) r = Some (Obj ps)"
proof -
  from getArticleById_Ref [OF assms]
  have idr: "id_is (mem s) (parseInt (mem s) x) (Ref r) = Some True" by blast
  show ?thesis
  proof (cases "cell_at (mem s) r")
    case None
    with idr show ?thesis by (simp add: id_is_def)
  next
    case (Some c)
    show ?thesis
    proof (cases c)
      case (Obj ps)
      with Some show ?thesis by simp
    next
      case (Arr xs)
      with Some idr parseInt_cases [of "mem s" x] show ?thesis
        by (auto simp: id_is_def strict_eq_def)
    qed
  qed
qed

lemma map_of_assign: "map_of (assign ps src) = map_of ps ++ map_of (rev src)"
proof (induction src arbitrary: ps)
  case Nil
  then show ?case by (simp add: assign_def)
next
  case (Cons kv src)
  obtain k v where kv: "kv = (k, v)" by (cases kv)
  have "map_of (assign ps (kv # src)) = map_of (assign (AList.update k v ps) src)"
    by (simp add: assign_def kv)
  also have "\<dots> = map_of (AList.update k v ps) ++ map_of (rev src)"
    by (rule Cons.IH)
  also have "\<dots> = (map_of ps)(k \<mapsto> v) ++ map_of (rev src)"
    by (simp only: update_conv')
  also have "\<dots> = map_of ps ++ ([k \<mapsto> v] ++ map_of (rev src))"
    by (rule ext) (simp add: map_add_def split: option.splits)
  also have "[k \<mapsto> v] ++ map_of (rev src) = map_of (rev (kv # src))"
    by (simp add: kv map_of_append)
  finally show ?case .
qed

lemma keys_assign: "fst ` set (assign ps src) = fst ` set ps \<union> fst ` set src"
proof -
  have "dom (map_of (assign ps src)) = dom (map_of ps) \<union> dom (map_of (rev src))"
    by (simp add: map_of_assign Un_commute)
  then show ?thesis by (simp add: dom_map_of_conv_image_fst)
qed

lemma the_prop_set_prop:
  "cell_at h r = Some (Obj ps) \<Longrightarrow> the_prop (set_prop r k v h) r k = v"
  by (auto simp: the_prop_def set_prop_def object_assign_def cell_at_def map_of_assign
      split: if_splits)

lemma addArticle_returns_stored:
  assumes "addArticle e d s = Some (Ref a, s')"
  shows "\<exists>xs. array_at (mem s') (articles s') = Some (xs @ [Ref a])"
proof -
  from assms obtain xs newId ok s2 where
    xs: "array_at (mem s) (articles s) = Some xs" and
    sv: "saveToLocalStorage e
           (s\<lparr>mem := array_push (articles s) (Ref (length (mem s)))
                       (mem s @ [Obj (new_article_props newId (own_props (mem s) d)
                                        (now_iso e))])\<rparr>) = (ok, s2)" and
    res: "(if ok then Some (Ref (length (mem s)), s2)
           else Some (Null, s2\<lparr>mem := array_pop (articles s2) (mem s2)\<rparr>)) = Some (Ref a, s')"
    by (auto simp: addArticle_def alloc_def split: if_splits option.splits prod.splits)
  from res have a: "a = length (mem s)" and s': "s' = s2"
    by (auto split: if_splits)
  from save_frame [OF sv]
  have "mem s2 = array_push (articles s) (Ref (length (mem s)))
                   (mem s @ [Obj (new_article_props newId (own_props (mem s) d) (now_iso e))])"
    and "articles s2 = articles s" by simp_all
  moreover have "array_at (mem s @ [Obj (new_article_props newId (own_props (mem s) d)
                                          (now_iso e))]) (articles s) = Some xs"
    using xs array_at_Some_less [OF xs] by (simp add: array_at_append)
  ultimately show ?thesis using a s' array_at_push by fastforce
qed

lemma exportData_shares:
  assumes "exportData e s = (v, s')"
  shows "get_prop (mem s') v ''articles'' = Some (Ref (articles s'))
       \<and> get_prop (mem s') v ''users'' = Some (Ref (users s'))
       \<and> articles s' = articles s \<and> users s' = users s"
  using assms by (auto simp: exportData_def alloc_def cell_at_def)

subsection \<open>What the lookup finds\<close>






subsection \<open>Objects under assignment\<close>

lemma length_object_assign [simp]: "length (object_assign r src h) = length h"
  by (simp add: object_assign_def split: option.splits cell.splits)

lemma cell_at_object_assign:
  "cell_at (object_assign r src h) r' =
     (if r' = r then (case cell_at h r of Some (Obj ps) \<Rightarrow> Some (Obj (assign ps src)) | c \<Rightarrow> c)
      else cell_at h r')"
  by (auto simp: object_assign_def cell_at_def split: option.splits cell.splits)

lemma array_at_object_assign [simp]: "array_at (object_assign r src h) r' = array_at h r'"
  by (auto simp: array_at_def cell_at_object_assign split: option.splits cell.splits)

lemma own_field_object_assign:
  "own_field (object_assign r src h) r' k =
     (if r' = r then (case cell_at h r of
                        Some (Obj ps) \<Rightarrow> (map_of ps ++ map_of (rev src)) k
                      | _ \<Rightarrow> None)
      else own_field h r' k)"
  by (auto simp: own_field_def cell_at_object_assign map_of_assign split: option.splits cell.splits)

lemma own_field_object_assign_other:
  assumes "k \<notin> fst ` set src"
  shows "own_field (object_assign r src h) r' k = own_field h r' k"
proof -
  from assms have "map_of (rev src) k = None"
    by (simp add: map_of_eq_None_iff)
  then show ?thesis
    unfolding own_field_object_assign
    by (auto simp: own_field_def map_add_def split: option.splits cell.splits)
qed

lemma map_of_rev_distinct: "distinct (map fst xs) \<Longrightarrow> map_of (rev xs) = map_of xs"
  by (rule map_of_inject_set [THEN iffD2]) (simp_all add: distinct_rev rev_map [symmetric])

lemma map_of_rev_own_props:
  "cell_at h r = Some (Obj ps) \<Longrightarrow> map_of (rev (own_props h (Ref r))) = map_of ps"
  by (simp add: own_props_def map_of_rev_distinct map_of_clearjunk)

lemma own_field_restore:
  assumes "cell_at h0 r = Some (Obj ps)" "cell_at h r = Some (Obj ps')"
  shows "own_field (object_assign r (own_props h0 (Ref r)) h) r k =
           (case map_of ps k of Some v \<Rightarrow> Some v | None \<Rightarrow> map_of ps' k)"
  using assms by (simp add: own_field_object_assign map_of_rev_own_props map_add_def)

lemma sanitize_loop_keys:
  "sanitize_loop h u keys acc = Some san \<Longrightarrow> k \<in> fst ` set san \<Longrightarrow>
     k \<in> set keys \<or> k \<in> fst ` set acc"
proof (induction keys arbitrary: acc)
  case Nil
  then show ?case by simp
next
  case (Cons key keys)
  show ?case
  proof (cases "has_own h u key")
    case None
    with Cons.prems show ?thesis by simp
  next
    case (Some b)
    show ?thesis
    proof (cases b)
      case False
      with Some Cons.prems have "sanitize_loop h u keys acc = Some san" by simp
      from Cons.IH [OF this Cons.prems(2)] show ?thesis by auto
    next
      case True
      with Some Cons.prems obtain v where
        "sanitize_loop h u keys (AList.update key v acc) = Some san"
        by (auto split: option.splits)
      from Cons.IH [OF this Cons.prems(2)] show ?thesis
        by (auto simp: dom_update)
    qed
  qed
qed

lemma sanitize_keys:
  "sanitizeArticleUpdates h u = Some san \<Longrightarrow> fst ` set san \<subseteq> set allowed_updates"
  using sanitize_loop_keys [of h u allowed_updates "[]" san]
  by (auto simp: sanitizeArticleUpdates_def)

lemma updateArticle_cases:
  assumes "updateArticle e x u s = (ok, s')"
  shows "(s' = s \<and> \<not> ok)
       \<or> (\<exists>r san. getArticleById s (parseInt (mem s) x) = Ref r
            \<and> sanitizeArticleUpdates (mem s) u = Some san
            \<and> articles s' = articles s \<and> users s' = users s
            \<and> (if ok then mem s' = touched e r san (mem s)
                         \<and> isValidArticle (touched e r san (mem s)) (Ref r)
               else mem s' = object_assign r (own_props (mem s) (Ref r))
                               (touched e r san (mem s))))"
proof -
  let ?p = "parseInt (mem s) x"
  show ?thesis
  proof (cases "isNaN ?p")
    case True
    with assms show ?thesis by (auto simp: updateArticle_def Let_def)
  next
    case nn: False
    show ?thesis
    proof (cases "getArticleById s ?p")
      case g: (Ref r)
      show ?thesis
      proof (cases "sanitizeArticleUpdates (mem s) u")
        case None
        with assms nn g show ?thesis by (auto simp: updateArticle_def Let_def)
      next
        case (Some san)
        let ?s1 = "s\<lparr>mem := touched e r san (mem s)\<rparr>"
        show ?thesis
        proof (cases "isValidArticle (touched e r san (mem s)) (Ref r)")
          case False
          with assms nn g Some show ?thesis
            by (auto simp: updateArticle_def Let_def touched_def)
        next
          case True
          obtain saved s2 where sv: "saveToLocalStorage e ?s1 = (saved, s2)"
            by (cases "saveToLocalStorage e ?s1")
          from save_frame [OF sv] have fr: "mem s2 = touched e r san (mem s)"
            "articles s2 = articles s" "users s2 = users s" by simp_all
          from assms nn g Some True sv
          have "(ok, s') = (if saved then (True, s2)
                   else (False, s2\<lparr>mem := object_assign r (own_props (mem s) (Ref r)) (mem s2)\<rparr>))"
            by (simp add: updateArticle_def Let_def touched_def)
          with fr True Some g show ?thesis
            by (auto split: if_splits)
        qed
      qed
    qed (use assms nn in \<open>auto simp: updateArticle_def Let_def\<close>)
  qed
qed

lemma touched_frame:
  assumes "fst ` set san \<subseteq> set allowed_updates" "k \<notin> set allowed_updates" "k \<noteq> ''updatedAt''"
  shows "own_field (touched e r san h) r' k = own_field h r' k"
proof -
  from assms have 1: "k \<notin> fst ` set san" by blast
  from assms have 2: "k \<notin> fst ` set [(''updatedAt'', Str (now_iso e))]" by simp
  show ?thesis
    unfolding touched_def
    using own_field_object_assign_other [OF 2] own_field_object_assign_other [OF 1]
    by simp
qed

lemma touched_cell_other: "r' \<noteq> r \<Longrightarrow> cell_at (touched e r san h) r' = cell_at h r'"
  by (simp add: touched_def cell_at_object_assign)

lemma touched_cell_Obj:
  "cell_at h r = Some (Obj ps) \<Longrightarrow> \<exists>ps'. cell_at (touched e r san h) r = Some (Obj ps')"
  by (simp add: touched_def cell_at_object_assign)

lemma touched_array [simp]: "array_at (touched e r san h) r' = array_at h r'"
  by (simp add: touched_def)

lemma own_field_Obj: "cell_at h r = Some (Obj ps) \<Longrightarrow> own_field h r k = map_of ps k"
  by (simp add: own_field_def)

subsection \<open>Single property writes and the status update\<close>

lemma updateArticleStatus_cases:
  assumes "updateArticleStatus e x st s = (ok, s')"
  shows "(s' = s \<and> \<not> ok \<and> (\<not> js_includes ARTICLE_STATUS st \<or> (\<forall>r. getArticleById s x \<noteq> Ref r)))
       \<or> (\<exists>r s2. js_includes ARTICLE_STATUS st \<and> getArticleById s x = Ref r
             \<and> saveToLocalStorage e (s\<lparr>mem := status_step e r st (mem s)\<rparr>) = (ok, s2)
             \<and> s' = (if ok then s2
                      else s2\<lparr>mem := set_prop r ''status'' (the_prop (mem s) r ''status'')
                                      (mem s2)\<rparr>))"
proof (cases "js_includes ARTICLE_STATUS st")
  case False
  with assms show ?thesis by (auto simp: updateArticleStatus_def)
next
  case inc: True
  show ?thesis
  proof (cases "getArticleById s x")
    case (Ref r)
    obtain saved s2 where sv:
      "saveToLocalStorage e (s\<lparr>mem := status_step e r st (mem s)\<rparr>) = (saved, s2)"
      by (cases "saveToLocalStorage e (s\<lparr>mem := status_step e r st (mem s)\<rparr>)")
    with assms inc Ref show ?thesis
      by (auto simp: updateArticleStatus_def status_step_def Let_def split: if_splits)
  qed (use assms inc in \<open>auto simp: updateArticleStatus_def\<close>)
qed

lemma save_refused:
  "\<not> setItem_ok e KEY_ARTICLES \<or> \<not> setItem_ok e KEY_USERS \<Longrightarrow>
     fst (saveToLocalStorage e s) = False"
  by (auto simp: saveToLocalStorage_def safeLocalStorageSet_def split: option.splits prod.splits)

lemma cell_at_set_prop:
  "cell_at (set_prop r k v h) r' =
     (if r' = r then (case cell_at h r of Some (Obj ps) \<Rightarrow> Some (Obj (AList.update k v ps)) | c \<Rightarrow> c)
      else cell_at h r')"
  by (auto simp: set_prop_def cell_at_object_assign assign_def split: option.splits cell.splits)

lemma array_at_set_prop [simp]: "array_at (set_prop r k v h) r' = array_at h r'"
  by (simp add: set_prop_def)

lemma length_set_prop [simp]: "length (set_prop r k v h) = length h"
  by (simp add: set_prop_def)

lemma own_field_set_prop:
  "cell_at h r = Some (Obj ps) \<Longrightarrow>
     own_field (set_prop r k v h) r' k' = (if r' = r \<and> k' = k then Some v else own_field h r' k')"
  by (auto simp: own_field_def cell_at_set_prop update_conv')

lemma own_field_set_prop_other:
  "k' \<noteq> k \<or> r' \<noteq> r \<Longrightarrow> own_field (set_prop r k v h) r' k' = own_field h r' k'"
  by (auto simp: own_field_def cell_at_set_prop update_conv' split: option.splits cell.splits)

lemma the_prop_Obj:
  "cell_at h r = Some (Obj ps) \<Longrightarrow>
     the_prop h r k = (case own_field h r k of None \<Rightarrow> Undefined | Some v \<Rightarrow> v)"
  by (simp add: the_prop_def own_field_def)

lemma get_prop_set_prop:
  "k' \<noteq> k \<Longrightarrow> get_prop (set_prop r k v h) a k' = get_prop h a k'"
  by (cases a) (auto simp: cell_at_set_prop update_conv' split: option.splits cell.splits)

lemma the_prop_set_prop_other:
  "k' \<noteq> k \<Longrightarrow> the_prop (set_prop r k v h) r' k' = the_prop h r' k'"
  by (simp add: the_prop_def get_prop_set_prop del: get_prop.simps)

lemma status_step_cell:
  assumes "cell_at h r = Some (Obj ps)"
  shows "cell_at (status_step e r st h) r =
           Some (Obj (if st = Str ''published'' \<and> \<not> truthy (the_prop h r ''publishDate'')
                      then AList.update ''publishDate'' (Str (date_part (now_iso e)))
                             (AList.update ''status'' st ps)
                      else AList.update ''status'' st ps))"
  using assms
  by (simp add: status_step_def Let_def cell_at_set_prop the_prop_set_prop_other)

lemma status_step_cell_other:
  "r' \<noteq> r \<Longrightarrow> cell_at (status_step e r st h) r' = cell_at h r'"
  by (simp add: status_step_def Let_def cell_at_set_prop)

lemma status_step_array [simp]: "array_at (status_step e r st h) r' = array_at h r'"
  by (simp add: status_step_def Let_def)

lemma status_step_length [simp]: "length (status_step e r st h) = length h"
  by (simp add: status_step_def Let_def)

lemma status_step_get_id [simp]:
  "get_prop (status_step e r st h) a ''id'' = get_prop h a ''id''"
  by (simp add: status_step_def Let_def get_prop_set_prop)

subsection \<open>The date part of a timestamp; lookups in a changed heap\<close>

lemma date_part_iso:
  assumes "isISOString t"
  shows "date_part t = take 10 t" and "is_date (date_part t)" and "date_part t \<noteq> []"
proof -
  have len: "length t = 24" and T: "t ! 10 = CHR ''T''" and d: "is_date (take 10 t)"
    using assms by (simp_all add: isISOString_def)
  have noT: "t ! i \<noteq> CHR ''T''" if "i < 10" for i
  proof -
    from that have "i \<in> {0,1,2,3,4,5,6,7,8,9}" by auto
    moreover have "take 10 t ! i = t ! i" using that by simp
    ultimately show ?thesis using d
      by (auto simp: is_date_def is_digit_def)
  qed
  show 1: "date_part t = take 10 t"
    unfolding date_part_def
    by (rule takeWhile_eq_take_P_nth) (use noT T in auto)
  show "is_date (date_part t)" using 1 d by simp
  show "date_part t \<noteq> []" using 1 len by auto
qed

lemma parseInt_fuel_Ref:
  "parseInt_fuel h (Suc f) (Ref r) =
     (case array_at h r of Some (x # xs) \<Rightarrow> parseInt_fuel h f x | _ \<Rightarrow> NaN)"
  by (auto simp: array_at_def split: option.splits cell.splits list.splits)

lemma parseInt_fuel_cong:
  assumes "\<forall>r. array_at h' r = array_at h r"
  shows "parseInt_fuel h' f v = parseInt_fuel h f v"
proof (induction f arbitrary: v)
  case 0
  then show ?case by (cases v) simp_all
next
  case (Suc f)
  show ?case
  proof (cases v)
    case (Ref r)
    then show ?thesis
      using Suc assms by (simp only: parseInt_fuel_Ref split: option.splits list.splits)
  qed simp_all
qed

lemma getArticleById_cong:
  assumes "articles s' = articles s" "length (mem s') = length (mem s)"
    "\<forall>r. array_at (mem s') r = array_at (mem s) r"
    "\<forall>a. get_prop (mem s') a ''id'' = get_prop (mem s) a ''id''"
  shows "getArticleById s' x = getArticleById s x"
proof -
  have "parseInt (mem s') x = parseInt (mem s) x"
    using assms(2) parseInt_fuel_cong [OF assms(3)] by (simp add: parseInt_def)
  moreover have "id_is (mem s') v = id_is (mem s) v" for v
    using assms(4) by (simp add: id_is_def fun_eq_iff)
  ultimately show ?thesis
    using assms(1,3) by (simp add: getArticleById_def Let_def cong: option.case_cong)
qed

subsection \<open>The write operations keep stored articles valid\<close>
















lemma addArticle_cases:
  assumes "addArticle e d s = Some (v, s')"
  shows "(v = Null \<and> s' = s)
       \<or> (\<exists>xs newId ok t. isValidArticle (mem s) d
             \<and> array_at (mem s) (articles s) = Some xs
             \<and> saveToLocalStorage e
                  (s\<lparr>mem := array_push (articles s) (Ref (length (mem s)))
                              (mem s @ [Obj (new_article_props newId (own_props (mem s) d)
                                               (now_iso e))])\<rparr>) = (ok, t)
             \<and> v = (if ok then Ref (length (mem s)) else Null)
             \<and> s' = (if ok then t else t\<lparr>mem := array_pop (articles t) (mem t)\<rparr>))"
proof (cases "isValidArticle (mem s) d")
  case False
  with assms show ?thesis by (simp add: addArticle_def)
next
  case vd: True
  show ?thesis
  proof (cases "array_at (mem s) (articles s)")
    case None
    with assms vd show ?thesis by (simp add: addArticle_def)
  next
    case (Some xs)
    show ?thesis
    proof (cases "those (map (\<lambda>a. get_prop (mem s) a ''id'') xs)")
      case None
      with assms vd Some show ?thesis by (simp add: addArticle_def)
    next
      case ids: (Some existingIds)
      show ?thesis
      proof (cases "generateUniqueId e existingIds")
        case None
        with assms vd Some ids show ?thesis by (simp add: addArticle_def)
      next
        case gen: (Some newId)
        let ?s1 = "s\<lparr>mem := array_push (articles s) (Ref (length (mem s)))
                              (mem s @ [Obj (new_article_props newId (own_props (mem s) d)
                                               (now_iso e))])\<rparr>"
        obtain ok t where sv: "saveToLocalStorage e ?s1 = (ok, t)"
          by (cases "saveToLocalStorage e ?s1")
        from assms vd Some ids gen sv
        have "(v, s') = (if ok then (Ref (length (mem s)), t)
                         else (Null, t\<lparr>mem := array_pop (articles t) (mem t)\<rparr>))"
          by (simp add: addArticle_def alloc_def split: if_splits)
        with vd Some sv show ?thesis by (auto split: if_splits)
      qed
    qed
  qed
qed






lemma js_findIndex_less: "js_findIndex p xs = Some (Some i) \<Longrightarrow> i < length xs"
proof (induction xs arbitrary: i)
  case Nil
  then show ?case by simp
next
  case (Cons a xs)
  then show ?case
    by (cases "p a") (auto split: bool.splits)
qed

lemma deleteArticle_cases:
  assumes "deleteArticle e x s = (ok, s')"
  shows "(s' = s \<and> \<not> ok)
       \<or> (\<exists>xs i t. array_at (mem s) (articles s) = Some xs \<and> i < length xs
             \<and> saveToLocalStorage e (s\<lparr>mem := array_remove (articles s) i (mem s)\<rparr>) = (ok, t)
             \<and> s' = (if ok then t
                      else t\<lparr>mem := array_insert (articles t) i (xs ! i) (mem t)\<rparr>))"
proof (cases "isNaN (parseInt (mem s) x)")
  case True
  with assms show ?thesis by (simp add: deleteArticle_def)
next
  case nn: False
  show ?thesis
  proof (cases "array_at (mem s) (articles s)")
    case None
    with assms nn show ?thesis by (simp add: deleteArticle_def)
  next
    case (Some xs)
    show ?thesis
    proof (cases "js_findIndex (id_is (mem s) (parseInt (mem s) x)) xs")
      case None
      with assms nn Some show ?thesis by (simp add: deleteArticle_def)
    next
      case fi: (Some oi)
      show ?thesis
      proof (cases oi)
        case None
        with assms nn Some fi show ?thesis by (simp add: deleteArticle_def)
      next
        case (Some i)
        with fi have i: "i < length xs" by (auto dest: js_findIndex_less)
        let ?s1 = "s\<lparr>mem := array_remove (articles s) i (mem s)\<rparr>"
        obtain saved t where sv: "saveToLocalStorage e ?s1 = (saved, t)"
          by (cases "saveToLocalStorage e ?s1")
        from assms nn \<open>array_at (mem s) (articles s) = Some xs\<close> fi Some sv
        have "(ok, s') = (if saved then (True, t)
                else (False, t\<lparr>mem := array_insert (articles t) i (xs ! i) (mem t)\<rparr>))"
          by (simp add: deleteArticle_def Let_def)
        with \<open>array_at (mem s) (articles s) = Some xs\<close> i sv show ?thesis
          by (auto split: if_splits)
      qed
    qed
  qed
qed







subsection \<open>What initialization installs\<close>








subsection \<open>What a save leaves in the persistent store\<close>

text \<open>
  When both key writes complete, the persistent store agrees with memory; when both are
  refused, nothing at all changes.
\<close>

lemma save_ok_in_sync:
  assumes "saveToLocalStorage e s = (True, s')"
  shows "in_sync s'"
  using assms
  by (auto simp: saveToLocalStorage_def safeLocalStorageSet_def in_sync_def KEY_ARTICLES_def
      KEY_USERS_def split: option.splits if_splits)

lemma save_refused_unchanged:
  "\<not> setItem_ok e KEY_ARTICLES \<Longrightarrow> \<not> setItem_ok e KEY_USERS \<Longrightarrow>
     saveToLocalStorage e s = (False, s)"
  by (auto simp: saveToLocalStorage_def safeLocalStorageSet_def split: option.splits)

subsection \<open>\<^verbatim>\<open>getArticles\<close> copies the array, not the records\<close>

lemma getArticles_copies_array:
  assumes "getArticles s = Some (v, s')"
  shows "v = Ref (length (mem s)) \<and> v \<noteq> Ref (articles s)
       \<and> array_at (mem s') (length (mem s)) = array_at (mem s) (articles s)
       \<and> array_at (mem s') (articles s) = array_at (mem s) (articles s)
       \<and> articles s' = articles s"
proof -
  from assms obtain xs where xs: "array_at (mem s) (articles s) = Some xs"
    and v: "v = Ref (length (mem s))" and s': "s' = s\<lparr>mem := mem s @ [Arr xs]\<rparr>"
    by (auto simp: getArticles_def alloc_def split: option.splits)
  from array_at_Some_less [OF xs] have lt: "articles s < length (mem s)" .
  with xs v s' show ?thesis
    by (auto simp: array_at_append) (simp add: array_at_def cell_at_def)
qed

subsection \<open>The fields of a new article\<close>

text \<open>
  \<^verbatim>\<open>createdAt\<close> is the store's timestamp whatever the caller supplies; \<^verbatim>\<open>id\<close>,
  \<^verbatim>\<open>views\<close>, \<^verbatim>\<open>engagement\<close> and \<^verbatim>\<open>publishDate\<close> are the caller's when supplied.
\<close>

lemma new_article_fields:
  "map_of (new_article_props newId dp now) ''createdAt'' = Some (Str now)"
  "map_of (new_article_props newId dp now) ''id'' =
     (case map_of (rev dp) ''id'' of None \<Rightarrow> Some (Num newId) | Some v \<Rightarrow> Some v)"
  "map_of (new_article_props newId dp now) ''views'' =
     (case map_of (rev dp) ''views'' of None \<Rightarrow> Some (Num 0) | Some v \<Rightarrow> Some v)"
  "map_of (new_article_props newId dp now) ''engagement'' =
     (case map_of (rev dp) ''engagement'' of None \<Rightarrow> Some (Num 0) | Some v \<Rightarrow> Some v)"
  "map_of (new_article_props newId dp now) ''publishDate'' =
     (case map_of (rev dp) ''publishDate'' of None \<Rightarrow> Some Null | Some v \<Rightarrow> Some v)"
  by (simp_all add: new_article_props_def map_of_assign map_add_def split: option.splits)

subsection \<open>A failed \<^verbatim>\<open>updateArticle\<close> restores the fields that existed\<close>


subsection \<open>A write operation that succeeds leaves memory and store in agreement\<close>

lemma addArticle_success_in_sync:
  "addArticle e d s = Some (Ref a, s') \<Longrightarrow> in_sync s'"
  using addArticle_cases [of e d s "Ref a" s'] save_ok_in_sync
  by (auto split: if_splits)

lemma updateArticle_success_in_sync:
  assumes "updateArticle e x u s = (True, s')"
  shows "in_sync s'"
proof -
  let ?p = "parseInt (mem s) x"
  from assms have nn: "\<not> isNaN ?p"
    by (auto simp: updateArticle_def Let_def)
  from updateArticle_cases [OF assms] obtain r san where
    g: "getArticleById s ?p = Ref r" and sa: "sanitizeArticleUpdates (mem s) u = Some san"
    and v: "isValidArticle (touched e r san (mem s)) (Ref r)"
    by auto
  obtain saved t where sv: "saveToLocalStorage e (s\<lparr>mem := touched e r san (mem s)\<rparr>) = (saved, t)"
    by (cases "saveToLocalStorage e (s\<lparr>mem := touched e r san (mem s)\<rparr>)")
  with assms nn g sa v have "saved" "s' = t"
    by (auto simp: updateArticle_def Let_def touched_def split: if_splits)
  with sv show ?thesis by (auto intro: save_ok_in_sync)
qed

lemma updateArticleStatus_success_in_sync:
  "updateArticleStatus e x st s = (True, s') \<Longrightarrow> in_sync s'"
  using updateArticleStatus_cases [of e x st s True s'] save_ok_in_sync
  by auto

lemma deleteArticle_success_in_sync:
  "deleteArticle e x s = (True, s') \<Longrightarrow> in_sync s'"
  using deleteArticle_cases [of e x s True s'] save_ok_in_sync
  by auto

lemma importData_success_in_sync:
  "importData e d s = (True, s') \<Longrightarrow> in_sync s'"
proof -
  assume res: "importData e d s = (True, s')"
  then have "\<exists>s1. saveToLocalStorage e s1 = (True, s')"
    by (auto simp: importData_def alloc_def split: if_splits option.splits prod.splits)
  then show ?thesis by (auto intro: save_ok_in_sync)
qed

subsection \<open>\<^verbatim>\<open>updateArticle\<close> parses its id twice\<close>

text \<open>
  \<^verbatim>\<open>updateArticle\<close> applies \<^verbatim>\<open>parseInt\<close> to its argument and passes the number to
  \<^verbatim>\<open>getArticleById\<close>, which applies \<^verbatim>\<open>parseInt\<close> again. From \<open>10 ^ 21\<close> on the
  second application changes the number: with the string of the digits of \<open>10 ^ 21\<close>,
  \<^verbatim>\<open>getArticleById\<close> finds nothing, and \<^verbatim>\<open>updateArticle\<close> updates the article with
  id 1.
\<close>

lemma updateArticle_parses_twice:
  "getArticleById demo_store (Str ''1000000000000000000000'') = Null"
  "fst (updateArticle (demo_env True True) (Str ''1000000000000000000000'') (Ref 4)
          (with_cells some_updates demo_store)) = True"
  "own_field (mem (snd (updateArticle (demo_env True True) (Str ''1000000000000000000000'') (Ref 4)
          (with_cells some_updates demo_store)))) 0 ''title'' = Some (Str ''New'')"
  by (simp_all add: own_field_def eval_ops some_updates_def)

section \<open>The claims\<close>

subsection \<open>C1: memory and persistent store after a write operation\<close>

text \<open>
  C1 fails on the code: \<^verbatim>\<open>saveToLocalStorage\<close> writes the articles key, then the users
  key, and reports failure when either write fails; the caller then rolls back memory
  only. Starting from a store in agreement with the persistent store, an \<^verbatim>\<open>addArticle\<close>
  whose articles-key write completes and whose users-key write is refused returns null
  with the old collection (one article) in memory and the new one (two articles) under
  the articles key.
\<close>

theorem addArticle_partial_write_diverges:
  "in_sync (with_cells new_article_data demo_synced)
   \<and> localStorage (with_cells new_article_data demo_synced) KEY_ARTICLES
       = Some (Parsed (JArr [demo_article_json]))
   \<and> map_option fst
        (addArticle (demo_env True False) (Ref 4) (with_cells new_article_data demo_synced))
      = Some Null
   \<and> map_option (\<lambda>(v, s'). stringify (mem s') (Ref (articles s')))
        (addArticle (demo_env True False) (Ref 4) (with_cells new_article_data demo_synced))
      = Some (Some (JArr [demo_article_json]))
   \<and> map_option (\<lambda>(v, s'). localStorage s' KEY_ARTICLES)
        (addArticle (demo_env True False) (Ref 4) (with_cells new_article_data demo_synced))
      = Some (Some (Parsed (JArr [demo_article_json, new_article_json])))
   \<and> map_option (in_sync \<circ> snd)
        (addArticle (demo_env True False) (Ref 4) (with_cells new_article_data demo_synced))
      = Some False"
  by (simp add: in_sync_def demo_synced_def uniq_loop_fresh new_article_data_def eval_ops
      demo_article_json_def new_article_json_def)

theorem addArticle_partial_write_diverges_witness:
  "map_option (\<lambda>(v, s'). map_option Parsed (stringify (mem s') (Ref (articles s'))))
     (addArticle (demo_env True False) (Ref 4) (with_cells new_article_data demo_synced))
   \<noteq> map_option (\<lambda>(v, s'). localStorage s' KEY_ARTICLES)
       (addArticle (demo_env True False) (Ref 4) (with_cells new_article_data demo_synced))"
proof -
  let ?R = "addArticle (demo_env True False) (Ref 4) (with_cells new_article_data demo_synced)"
  have m: "map_option (\<lambda>(v, s'). stringify (mem s') (Ref (articles s'))) ?R
             = Some (Some (JArr [demo_article_json]))"
    and p: "map_option (\<lambda>(v, s'). localStorage s' KEY_ARTICLES) ?R
             = Some (Some (Parsed (JArr [demo_article_json, new_article_json])))"
    using addArticle_partial_write_diverges by blast+
  from m obtain v s' where R: "?R = Some (v, s')"
    and a: "stringify (mem s') (Ref (articles s')) = Some (JArr [demo_article_json])"
    by auto
  with p have "localStorage s' KEY_ARTICLES
                 = Some (Parsed (JArr [demo_article_json, new_article_json]))" by simp
  with R a show ?thesis by simp
qed

subsection \<open>C2: the fields of a new article\<close>

text \<open>
  C2 fails on the code for the \<^verbatim>\<open>id\<close>: the record literal of \<^verbatim>\<open>addArticle\<close> writes
  \<^verbatim>\<open>id: newId\<close> before it spreads \<^verbatim>\<open>...articleData\<close>, so an \<^verbatim>\<open>id\<close> the caller
  supplies replaces the generated one (\<^verbatim>\<open>createdAt\<close>, written after the spread, does
  stay the store's). Here the generator yields 17294130000004320 and the caller's data
  carries \<^verbatim>\<open>id: 999\<close>: the stored and returned record has id 999.
\<close>

theorem addArticle_caller_id_wins:
  "generateUniqueId (demo_env True True) [Num 1] = Some 17294130000004320
   \<and> map_option fst
        (addArticle (demo_env True True) (Ref 4) (with_cells new_article_data demo_store))
      = Some (Ref 5)
   \<and> map_option (\<lambda>(newArticle, s'). get_prop (mem s') newArticle ''id'')
        (addArticle (demo_env True True) (Ref 4) (with_cells new_article_data demo_store))
      = Some (Some (Num 999))
   \<and> map_option (\<lambda>(newArticle, s'). array_at (mem s') (articles s'))
        (addArticle (demo_env True True) (Ref 4) (with_cells new_article_data demo_store))
      = Some (Some [Ref 0, Ref 5])"
  by (simp add: uniq_loop_fresh new_article_data_def eval_ops)

theorem addArticle_caller_id_wins_witness:
  "map_option (\<lambda>(newArticle, s'). get_prop (mem s') newArticle ''id'')
     (addArticle (demo_env True True) (Ref 4) (with_cells new_article_data demo_store))
   \<noteq> Some (Some (Num 17294130000004320))"
proof -
  have stored: "map_option (\<lambda>(newArticle, s'). get_prop (mem s') newArticle ''id'')
      (addArticle (demo_env True True) (Ref 4) (with_cells new_article_data demo_store))
    = Some (Some (Num 999))"
    using addArticle_caller_id_wins by blast
  show ?thesis unfolding stored by simp
qed

subsection \<open>C3: the shape invariant of stored articles\<close>




subsection \<open>C4: what crosses the public boundary\<close>

text \<open>
  C4 as stated fails. \<^verbatim>\<open>getArticleById\<close> returns the element of the internal array
  that \<^verbatim>\<open>find\<close> yields, not a copy: when the caller assigns to a field of the returned
  record, the store's own article collection changes with it.
\<close>

theorem getArticleById_copy_counterexample:
  "getArticleById demo_store (Num 1) = Ref 0
   \<and> array_at (mem demo_store) (articles demo_store) = Some [Ref 0]
   \<and> stringify
        (mem (caller_sets (getArticleById demo_store (Num 1)) ''title'' (Str ''Z'') demo_store))
        (Ref (articles demo_store))
      \<noteq> stringify (mem demo_store) (Ref (articles demo_store))"
  by (simp add: caller_sets_def eval_simps)

text \<open>
  C4, amended: \<^verbatim>\<open>getArticleById\<close>, \<^verbatim>\<open>exportData\<close> and a successful \<^verbatim>\<open>addArticle\<close>
  hand out references to the store's own state, not copies. For every store state and
  every id present, the record returned by \<^verbatim>\<open>getArticleById\<close> is an element of the
  internal article array, and a field the caller assigns on it is the field the store
  reads afterwards; the \<^verbatim>\<open>articles\<close> and \<^verbatim>\<open>users\<close> fields of the object returned by
  \<^verbatim>\<open>exportData\<close> are the internal arrays themselves; the record returned by a successful
  \<^verbatim>\<open>addArticle\<close> is the record appended to the internal array.
\<close>

theorem boundary_values_are_shared:
  "(getArticleById s x = Ref r \<longrightarrow>
      (\<exists>xs. array_at (mem s) (articles s) = Some xs \<and> Ref r \<in> set xs)
      \<and> the_prop (mem (caller_sets (getArticleById s x) k v s)) r k = v)
   \<and> (exportData e s = (exported, s1) \<longrightarrow>
        get_prop (mem s1) exported ''articles'' = Some (Ref (articles s1))
        \<and> get_prop (mem s1) exported ''users'' = Some (Ref (users s1))
        \<and> articles s1 = articles s \<and> users s1 = users s)
   \<and> (addArticle e articleData s = Some (Ref a, s2) \<longrightarrow>
        (\<exists>xs. array_at (mem s2) (articles s2) = Some (xs @ [Ref a])))"
proof (intro conjI impI)
  assume g: "getArticleById s x = Ref r"
  from getArticleById_Ref [OF g]
  show "\<exists>xs. array_at (mem s) (articles s) = Some xs \<and> Ref r \<in> set xs" by blast
  from getArticleById_Obj [OF g] obtain ps where "cell_at (mem s) r = Some (Obj ps)" by blast
  then show "the_prop (mem (caller_sets (getArticleById s x) k v s)) r k = v"
    using g by (simp add: caller_sets_def the_prop_set_prop)
next
  assume ex: "exportData e s = (exported, s1)"
  from exportData_shares [OF ex]
  show "get_prop (mem s1) exported ''articles'' = Some (Ref (articles s1))"
    and "get_prop (mem s1) exported ''users'' = Some (Ref (users s1))"
    and "articles s1 = articles s" and "users s1 = users s" by simp_all
next
  assume "addArticle e articleData s = Some (Ref a, s2)"
  then show "\<exists>xs. array_at (mem s2) (articles s2) = Some (xs @ [Ref a])"
    by (rule addArticle_returns_stored)
qed

theorem boundary_values_are_shared_witness:
  "getArticleById demo_store (Num 1) = Ref 0
   \<and> (\<exists>xs. array_at (mem demo_store) (articles demo_store) = Some xs \<and> Ref 0 \<in> set xs)
   \<and> the_prop (mem (caller_sets (getArticleById demo_store (Num 1)) ''title'' (Str ''Z'')
                      demo_store)) 0 ''title'' = Str ''Z''"
proof -
  have g: "getArticleById demo_store (Num 1) = Ref 0"
    by (simp add: eval_simps)
  with boundary_values_are_shared [of demo_store "Num 1" 0 "''title''" "Str ''Z''"]
  show ?thesis by blast
qed

subsection \<open>C5: rollback of \<^verbatim>\<open>updateArticle\<close> when persistence fails\<close>

text \<open>
  C5 fails on the code: the rollback is \<^verbatim>\<open>Object.assign(article, backup)\<close>, which
  writes the old values back but removes nothing. With updates
  \<^verbatim>\<open>{ title: 'New', image: 'x.png' }\<close> on an article that has neither \<^verbatim>\<open>image\<close> nor
  \<^verbatim>\<open>updatedAt\<close>, and both key writes refused, the call returns false, the title is the
  old one again, and the record keeps the two new fields.
\<close>

theorem updateArticle_rollback_keeps_new_fields:
  "updateArticle (demo_env False False) (Num 1) (Ref 4) (with_cells some_updates demo_store)
   = (False,
      (with_cells some_updates demo_store)
        \<lparr>mem := [Obj (demo_article @ [(''image'', Str ''x.png''),
                                      (''updatedAt'', Str ''2024-10-20T08:30:00.000Z'')]),
                 Arr [Ref 0], Obj demo_user, Arr [Ref 2]] @ some_updates\<rparr>)"
  by (simp add: some_updates_def eval_ops)

theorem updateArticle_rollback_keeps_new_fields_witness:
  "has_own (mem (with_cells some_updates demo_store)) (Ref 0) ''updatedAt'' = Some False
   \<and> has_own
        (mem (snd (updateArticle (demo_env False False) (Num 1) (Ref 4)
                     (with_cells some_updates demo_store)))) (Ref 0) ''updatedAt''
      = Some True"
  unfolding updateArticle_rollback_keeps_new_fields
  by (simp add: some_updates_def eval_simps)

subsection \<open>C6: the id argument of \<^verbatim>\<open>updateArticleStatus\<close>\<close>




subsection \<open>C7: \<^verbatim>\<open>updateArticleStatus\<close> when persistence fails\<close>

text \<open>
  C7: let \<^verbatim>\<open>updateArticleStatus\<close> be called with a valid status on an article that the
  lookup finds. If either key write is refused, the call returns failure. Whenever it
  returns failure, the record's status reads as before the call; if the call was
  publishing a record whose \<^verbatim>\<open>publishDate\<close> was unset, the record keeps the date the
  call has just set (it is not reverted); in every other case no field other than
  \<^verbatim>\<open>status\<close> differs from before, and the record is exactly the old one when it had a
  \<^verbatim>\<open>status\<close> field. No other record and neither collection changes.
\<close>

theorem updateArticleStatus_persist_failure:
  assumes valid: "js_includes ARTICLE_STATUS newStatus"
    and found: "getArticleById s articleId = Ref r"
    and res: "updateArticleStatus e articleId newStatus s = (ok, s')"
  shows "(\<not> setItem_ok e KEY_ARTICLES \<or> \<not> setItem_ok e KEY_USERS \<longrightarrow> \<not> ok)
       \<and> (\<not> ok \<longrightarrow>
            the_prop (mem s') r ''status'' = the_prop (mem s) r ''status''
            \<and> (newStatus = Str ''published'' \<and> \<not> truthy (the_prop (mem s) r ''publishDate'') \<longrightarrow>
                 the_prop (mem s') r ''publishDate'' = Str (date_part (now_iso e)))
            \<and> (\<not> (newStatus = Str ''published'' \<and> \<not> truthy (the_prop (mem s) r ''publishDate'')) \<longrightarrow>
                 (\<forall>k. k \<noteq> ''status'' \<longrightarrow> own_field (mem s') r k = own_field (mem s) r k)
                 \<and> (own_field (mem s) r ''status'' \<noteq> None \<longrightarrow>
                      cell_at (mem s') r = cell_at (mem s) r))
            \<and> (\<forall>k. k \<noteq> ''status'' \<longrightarrow> k \<noteq> ''publishDate'' \<longrightarrow>
                  own_field (mem s') r k = own_field (mem s) r k)
            \<and> (\<forall>r'. r' \<noteq> r \<longrightarrow> cell_at (mem s') r' = cell_at (mem s) r')
            \<and> articles s' = articles s \<and> users s' = users s)"
proof -
  from getArticleById_Obj [OF found] obtain ps where ps: "cell_at (mem s) r = Some (Obj ps)"
    by blast
  let ?h2 = "status_step e r newStatus (mem s)"
  let ?old = "the_prop (mem s) r ''status''"
  let ?pub = "newStatus = Str ''published'' \<and> \<not> truthy (the_prop (mem s) r ''publishDate'')"
  from updateArticleStatus_cases [OF res] valid found obtain s2 where
    sv: "saveToLocalStorage e (s\<lparr>mem := ?h2\<rparr>) = (ok, s2)" and
    s': "s' = (if ok then s2 else s2\<lparr>mem := set_prop r ''status'' ?old (mem s2)\<rparr>)"
    by auto
  from save_frame [OF sv] have fr: "mem s2 = ?h2" "articles s2 = articles s" "users s2 = users s"
    by simp_all
  have refused: "\<not> setItem_ok e KEY_ARTICLES \<or> \<not> setItem_ok e KEY_USERS \<longrightarrow> \<not> ok"
    using save_refused [of e "s\<lparr>mem := ?h2\<rparr>"] sv by auto
  have failed: ?thesis if nok: "\<not> ok"
  proof -
    from s' nok fr have m: "mem s' = set_prop r ''status'' ?old ?h2"
      and au: "articles s' = articles s" "users s' = users s" by simp_all
    note c2 = status_step_cell [OF ps, of e newStatus]
    have st: "the_prop (mem s') r ''status'' = ?old"
      unfolding m using c2 by (rule the_prop_set_prop)
    have other: "own_field (mem s') r k = own_field ?h2 r k" if "k \<noteq> ''status''" for k
      unfolding m using that by (simp add: own_field_set_prop_other)
    have pd: "the_prop (mem s') r ''publishDate'' = Str (date_part (now_iso e))" if ?pub
    proof -
      have "the_prop (mem s') r ''publishDate'' = the_prop ?h2 r ''publishDate''"
        unfolding m by (simp add: the_prop_set_prop_other)
      also have "\<dots> = Str (date_part (now_iso e))"
        using c2 that by (simp add: the_prop_def update_conv')
      finally show ?thesis .
    qed
    have keep2: "own_field (mem s') r k = own_field (mem s) r k"
      if "k \<noteq> ''status''" "k \<noteq> ''publishDate''" for k
      using other [OF that(1)] c2 ps that by (simp add: own_field_def update_conv')
    have keep1: "own_field (mem s') r k = own_field (mem s) r k"
      if "\<not> ?pub" "k \<noteq> ''status''" for k
      using other [OF that(2)] c2 ps that by (simp add: own_field_def update_conv')
    have same: "cell_at (mem s') r = cell_at (mem s) r"
      if np: "\<not> ?pub" and has: "own_field (mem s) r ''status'' \<noteq> None"
    proof -
      from has ps obtain v where v: "map_of ps ''status'' = Some v"
        by (auto simp: own_field_def)
      then have old: "?old = v" using ps by (simp add: the_prop_def)
      have "cell_at (mem s') r
            = Some (Obj (AList.update ''status'' v (AList.update ''status'' newStatus ps)))"
        unfolding m using c2 np old by (simp add: cell_at_set_prop)
      also have "\<dots> = Some (Obj ps)" using v by (simp add: update_triv)
      finally show ?thesis using ps by simp
    qed
    have others: "cell_at (mem s') r' = cell_at (mem s) r'" if "r' \<noteq> r" for r'
      unfolding m using that by (simp add: cell_at_set_prop status_step_cell_other)
    from st pd keep1 keep2 same others au refused show ?thesis by blast
  qed
  show ?thesis
  proof (cases ok)
    case True
    with refused show ?thesis by simp
  next
    case False
    then show ?thesis by (rule failed)
  qed
qed


theorem updateArticleStatus_persist_failure_witness:
  "js_includes ARTICLE_STATUS (Str ''published'')
   \<and> getArticleById demo_store (Num 1) = Ref 0
   \<and> the_prop (mem demo_store) 0 ''status'' = Str ''draft''
   \<and> the_prop (mem demo_store) 0 ''publishDate'' = Null
   \<and> fst (updateArticleStatus (demo_env False True) (Num 1) (Str ''published'') demo_store)
       = False
   \<and> the_prop
        (mem (snd (updateArticleStatus (demo_env False True) (Num 1) (Str ''published'')
                     demo_store))) 0 ''status'' = Str ''draft''
   \<and> the_prop
        (mem (snd (updateArticleStatus (demo_env False True) (Num 1) (Str ''published'')
                     demo_store))) 0 ''publishDate'' = Str ''2024-10-20''
   \<and> cell_at
        (mem (snd (updateArticleStatus (demo_env True False) (Num 1) (Str ''review'')
                     demo_store))) 0 = cell_at (mem demo_store) 0"
proof -
  let ?P = "updateArticleStatus (demo_env False True) (Num 1) (Str ''published'') demo_store"
  let ?Q = "updateArticleStatus (demo_env True False) (Num 1) (Str ''review'') demo_store"
  have vp: "js_includes ARTICLE_STATUS (Str ''published'')"
    and vr: "js_includes ARTICLE_STATUS (Str ''review'')"
    by (simp_all add: eval_simps)
  have found: "getArticleById demo_store (Num 1) = Ref 0"
    by (simp add: eval_simps)
  have before: "the_prop (mem demo_store) 0 ''status'' = Str ''draft''"
    "the_prop (mem demo_store) 0 ''publishDate'' = Null"
    "own_field (mem demo_store) 0 ''status'' \<noteq> None"
    by (simp_all add: own_field_def eval_simps)
  have refP: "\<not> setItem_ok (demo_env False True) KEY_ARTICLES"
    and refQ: "\<not> setItem_ok (demo_env True False) KEY_USERS"
    by (simp_all add: eval_simps)
  have resP: "?P = (fst ?P, snd ?P)" and resQ: "?Q = (fst ?Q, snd ?Q)" by simp_all
  note P = updateArticleStatus_persist_failure [OF vp found resP]
  note Q = updateArticleStatus_persist_failure [OF vr found resQ]
  from P refP have nokP: "\<not> fst ?P" by blast
  from Q refQ have nokQ: "\<not> fst ?Q" by blast
  from P nokP before
  have "the_prop (mem (snd ?P)) 0 ''status'' = Str ''draft''"
    and "the_prop (mem (snd ?P)) 0 ''publishDate'' = Str (date_part (now_iso (demo_env False True)))"
    by simp_all
  moreover have "date_part (now_iso (demo_env False True)) = ''2024-10-20''"
    by (simp add: eval_simps)
  moreover from Q nokQ before have "cell_at (mem (snd ?Q)) 0 = cell_at (mem demo_store) 0"
    by simp
  ultimately show ?thesis using vp found before nokP by simp
qed

subsection \<open>C8: publishing sets the publish date once\<close>

text \<open>
  C8: for every article the lookup finds whose \<^verbatim>\<open>publishDate\<close> is unset (whatever its
  status, so in particular for a draft), a successful
  \<^verbatim>\<open>updateArticleStatus(id, 'published')\<close> leaves the article with status
  \<^verbatim>\<open>published\<close> and with \<^verbatim>\<open>publishDate\<close> equal to the first ten characters of the
  current ISO timestamp, which have the form \<^verbatim>\<open>YYYY-MM-DD\<close>; a second successful call
  with \<^verbatim>\<open>published\<close> finds the same article and does not change \<^verbatim>\<open>publishDate\<close>.
\<close>

theorem publish_sets_date_once:
  assumes found: "getArticleById s articleId = Ref r"
    and unset: "\<not> truthy (the_prop (mem s) r ''publishDate'')"
    and stamp: "isISOString (now_iso e1)"
    and first: "updateArticleStatus e1 articleId (Str ''published'') s = (True, s1)"
    and second: "updateArticleStatus e2 articleId (Str ''published'') s1 = (True, s2)"
  shows "the_prop (mem s1) r ''status'' = Str ''published''
       \<and> the_prop (mem s1) r ''publishDate'' = Str (take 10 (now_iso e1))
       \<and> is_date (take 10 (now_iso e1))
       \<and> getArticleById s1 articleId = Ref r
       \<and> the_prop (mem s2) r ''status'' = Str ''published''
       \<and> the_prop (mem s2) r ''publishDate'' = Str (take 10 (now_iso e1))"
proof -
  let ?pub = "Str ''published''"
  let ?d = "date_part (now_iso e1)"
  note d = date_part_iso [OF stamp]
  from getArticleById_Obj [OF found] obtain ps where ps: "cell_at (mem s) r = Some (Obj ps)"
    by blast
  from updateArticleStatus_cases [OF first] found obtain t1 where
    sv1: "saveToLocalStorage e1 (s\<lparr>mem := status_step e1 r ?pub (mem s)\<rparr>) = (True, t1)"
    and t1: "s1 = t1" by auto
  from save_frame [OF sv1] t1 have m1: "mem s1 = status_step e1 r ?pub (mem s)"
    and a1: "articles s1 = articles s" by simp_all
  let ?ps1 = "AList.update ''publishDate'' (Str ?d) (AList.update ''status'' ?pub ps)"
  have c1: "cell_at (mem s1) r = Some (Obj ?ps1)"
    unfolding m1 using status_step_cell [OF ps, of e1 ?pub] unset by simp
  have st1: "the_prop (mem s1) r ''status'' = ?pub"
    and pd1: "the_prop (mem s1) r ''publishDate'' = Str ?d"
    using c1 by (simp_all add: the_prop_def update_conv')
  have g1: "getArticleById s1 articleId = Ref r"
    using getArticleById_cong [of s1 s articleId] a1 found by (simp add: m1)
  from updateArticleStatus_cases [OF second] g1 obtain t2 where
    sv2: "saveToLocalStorage e2 (s1\<lparr>mem := status_step e2 r ?pub (mem s1)\<rparr>) = (True, t2)"
    and t2: "s2 = t2" by auto
  from save_frame [OF sv2] t2 have m2: "mem s2 = status_step e2 r ?pub (mem s1)" by simp
  have "truthy (the_prop (mem s1) r ''publishDate'')"
    using pd1 d(3) by simp
  then have c2: "cell_at (mem s2) r = Some (Obj (AList.update ''status'' ?pub ?ps1))"
    unfolding m2 using status_step_cell [OF c1, of e2 ?pub] by simp
  have "the_prop (mem s2) r ''status'' = ?pub"
    and "the_prop (mem s2) r ''publishDate'' = Str ?d"
    using c2 by (simp_all add: the_prop_def update_conv')
  with st1 pd1 g1 d show ?thesis by simp
qed

theorem publish_sets_date_once_witness:
  "getArticleById demo_store (Num 1) = Ref 0
   \<and> the_prop (mem demo_store) 0 ''status'' = Str ''draft''
   \<and> the_prop (mem demo_store) 0 ''publishDate'' = Null
   \<and> isISOString (now_iso (demo_env True True))
   \<and> fst (updateArticleStatus (demo_env True True) (Num 1) (Str ''published'') demo_store) = True
   \<and> fst (updateArticleStatus (demo_env True True) (Num 1) (Str ''published'')
            (snd (updateArticleStatus (demo_env True True) (Num 1) (Str ''published'')
                    demo_store))) = True
   \<and> the_prop
        (mem (snd (updateArticleStatus (demo_env True True) (Num 1) (Str ''published'')
                     demo_store))) 0 ''status'' = Str ''published''
   \<and> the_prop
        (mem (snd (updateArticleStatus (demo_env True True) (Num 1) (Str ''published'')
                     demo_store))) 0 ''publishDate'' = Str ''2024-10-20''
   \<and> the_prop
        (mem (snd (updateArticleStatus (demo_env True True) (Num 1) (Str ''published'')
                (snd (updateArticleStatus (demo_env True True) (Num 1) (Str ''published'')
                        demo_store))))) 0 ''publishDate'' = Str ''2024-10-20''"
proof -
  let ?E = "demo_env True True"
  let ?P = "updateArticleStatus ?E (Num 1) (Str ''published'') demo_store"
  let ?Q = "updateArticleStatus ?E (Num 1) (Str ''published'') (snd ?P)"
  have found: "getArticleById demo_store (Num 1) = Ref 0"
    by (simp add: eval_simps)
  have before: "the_prop (mem demo_store) 0 ''status'' = Str ''draft''"
    "the_prop (mem demo_store) 0 ''publishDate'' = Null"
    by (simp_all add: eval_simps)
  then have unset: "\<not> truthy (the_prop (mem demo_store) 0 ''publishDate'')" by simp
  have stamp: "isISOString (now_iso ?E)"
    by (simp add: isISOString_def is_date_def is_digit_def demo_env_def)
  have okP: "fst ?P = True"
    by (simp add: updateArticleStatus_def eval_simps)
  then have resP: "?P = (True, snd ?P)" by (simp add: prod_eq_iff)
  have okQ: "fst ?Q = True"
    by (simp add: updateArticleStatus_def eval_simps)
  then have resQ: "?Q = (True, snd ?Q)" by (simp add: prod_eq_iff)
  have "take 10 (now_iso ?E) = ''2024-10-20''"
    by (simp add: demo_env_def)
  with publish_sets_date_once [OF found unset stamp resP resQ] found before stamp okP okQ
  show ?thesis by simp
qed

subsection \<open>C9: what \<^verbatim>\<open>updateArticle\<close> can change\<close>

text \<open>
  C9: for every store state, id argument and updates object, whatever the outcome of
  \<^verbatim>\<open>updateArticle\<close> (so in particular when it completes successfully), no record has a
  field outside the allow-list \<^verbatim>\<open>title, category, image, summary, content, status,
  views, engagement, publishDate\<close> and \<^verbatim>\<open>updatedAt\<close> changed, added or removed: every
  other key of the updates is dropped, and \<^verbatim>\<open>id\<close>, \<^verbatim>\<open>author\<close>, \<^verbatim>\<open>authorId\<close> and
  \<^verbatim>\<open>createdAt\<close> are as before. Every heap cell other than the record the call looks
  up, which is the result of \<^verbatim>\<open>getArticleById\<close> on \<^verbatim>\<open>parseInt(articleId)\<close>, all
  arrays, and the two collections are untouched.
\<close>

theorem updateArticle_frame:
  assumes "updateArticle e articleId updates s = (ok, s')"
  shows "(\<forall>r k. k \<notin> set allowed_updates \<longrightarrow> k \<noteq> ''updatedAt'' \<longrightarrow>
            own_field (mem s') r k = own_field (mem s) r k)
       \<and> (\<forall>r. own_field (mem s') r ''id'' = own_field (mem s) r ''id''
              \<and> own_field (mem s') r ''author'' = own_field (mem s) r ''author''
              \<and> own_field (mem s') r ''authorId'' = own_field (mem s) r ''authorId''
              \<and> own_field (mem s') r ''createdAt'' = own_field (mem s) r ''createdAt'')
       \<and> (\<forall>r. getArticleById s (parseInt (mem s) articleId) \<noteq> Ref r \<longrightarrow> cell_at (mem s') r = cell_at (mem s) r)
       \<and> (\<forall>r. array_at (mem s') r = array_at (mem s) r)
       \<and> articles s' = articles s \<and> users s' = users s"
proof -
  have frame: "\<forall>r k. k \<notin> set allowed_updates \<longrightarrow> k \<noteq> ''updatedAt'' \<longrightarrow>
            own_field (mem s') r k = own_field (mem s) r k"
    and rest: "(\<forall>r. getArticleById s (parseInt (mem s) articleId) \<noteq> Ref r \<longrightarrow> cell_at (mem s') r = cell_at (mem s) r)
       \<and> (\<forall>r. array_at (mem s') r = array_at (mem s) r)
       \<and> articles s' = articles s \<and> users s' = users s"
  proof -
    from updateArticle_cases [OF assms]
    consider "s' = s"
      | r san where "getArticleById s (parseInt (mem s) articleId) = Ref r"
          "sanitizeArticleUpdates (mem s) updates = Some san"
          "articles s' = articles s" "users s' = users s"
          "mem s' = touched e r san (mem s)"
      | r san where "getArticleById s (parseInt (mem s) articleId) = Ref r"
          "sanitizeArticleUpdates (mem s) updates = Some san"
          "articles s' = articles s" "users s' = users s"
          "mem s' = object_assign r (own_props (mem s) (Ref r)) (touched e r san (mem s))"
      by (auto split: if_splits)
    then have "(\<forall>r k. k \<notin> set allowed_updates \<longrightarrow> k \<noteq> ''updatedAt'' \<longrightarrow>
            own_field (mem s') r k = own_field (mem s) r k)
       \<and> (\<forall>r. getArticleById s (parseInt (mem s) articleId) \<noteq> Ref r \<longrightarrow> cell_at (mem s') r = cell_at (mem s) r)
       \<and> (\<forall>r. array_at (mem s') r = array_at (mem s) r)
       \<and> articles s' = articles s \<and> users s' = users s"
    proof cases
      case 1
      then show ?thesis by simp
    next
      case (2 r san)
      with sanitize_keys [OF 2(2)] show ?thesis
        by (auto simp: touched_frame touched_cell_other)
    next
      case (3 r san)
      from getArticleById_Obj [OF 3(1)] obtain ps where ps: "cell_at (mem s) r = Some (Obj ps)"
        by blast
      from touched_cell_Obj [OF ps] obtain ps' where
        ps': "cell_at (touched e r san (mem s)) r = Some (Obj ps')" by blast
      have keep: "own_field (mem s') r' k = own_field (mem s) r' k"
        if k: "k \<notin> set allowed_updates" "k \<noteq> ''updatedAt''" for r' k
      proof (cases "r' = r")
        case True
        have "map_of ps' k = map_of ps k"
          using touched_frame [OF sanitize_keys [OF 3(2)] k, of e r "mem s" r] ps ps'
          by (simp add: own_field_Obj)
        then show ?thesis
          using own_field_restore [OF ps ps', of k] 3(5) True ps
          by (simp add: own_field_Obj split: option.splits)
      next
        case False
        then show ?thesis
          using 3(5) touched_frame [OF sanitize_keys [OF 3(2)] k]
          by (simp add: own_field_object_assign)
      qed
      have "cell_at (mem s') r' = cell_at (mem s) r'" if "r' \<noteq> r" for r'
        using that 3(5) by (simp add: cell_at_object_assign touched_cell_other)
      with keep 3 show ?thesis by auto
    qed
    then show "\<forall>r k. k \<notin> set allowed_updates \<longrightarrow> k \<noteq> ''updatedAt'' \<longrightarrow>
            own_field (mem s') r k = own_field (mem s) r k"
      and "(\<forall>r. getArticleById s (parseInt (mem s) articleId) \<noteq> Ref r \<longrightarrow> cell_at (mem s') r = cell_at (mem s) r)
       \<and> (\<forall>r. array_at (mem s') r = array_at (mem s) r)
       \<and> articles s' = articles s \<and> users s' = users s" by blast+
  qed
  have "own_field (mem s') r ''id'' = own_field (mem s) r ''id''
              \<and> own_field (mem s') r ''author'' = own_field (mem s) r ''author''
              \<and> own_field (mem s') r ''authorId'' = own_field (mem s) r ''authorId''
              \<and> own_field (mem s') r ''createdAt'' = own_field (mem s) r ''createdAt''" for r
    using frame by (simp add: allowed_updates_def)
  with frame rest show ?thesis by blast
qed


theorem updateArticle_frame_witness:
  "fst (updateArticle (demo_env True True) (Num 1) (Ref 4) (with_cells spec_updates demo_store))
     = True
   \<and> own_field
        (mem (snd (updateArticle (demo_env True True) (Num 1) (Ref 4)
                     (with_cells spec_updates demo_store)))) 0 ''title'' = Some (Str ''New'')
   \<and> own_field
        (mem (snd (updateArticle (demo_env True True) (Num 1) (Ref 4)
                     (with_cells spec_updates demo_store)))) 0 ''id'' = Some (Num 1)
   \<and> own_field
        (mem (snd (updateArticle (demo_env True True) (Num 1) (Ref 4)
                     (with_cells spec_updates demo_store)))) 0 ''evil'' = None
   \<and> getArticleById (with_cells spec_updates demo_store)
        (parseInt (mem (with_cells spec_updates demo_store)) (Num 1)) = Ref 0
   \<and> cell_at
        (mem (snd (updateArticle (demo_env True True) (Num 1) (Ref 4)
                     (with_cells spec_updates demo_store)))) 2 = Some (Obj demo_user)"
proof -
  let ?S = "with_cells spec_updates demo_store"
  let ?R = "updateArticle (demo_env True True) (Num 1) (Ref 4) ?S"
  have res: "?R = (fst ?R, snd ?R)" by simp
  have "''evil'' \<notin> set allowed_updates" "''evil'' \<noteq> ''updatedAt''"
    by (simp_all add: allowed_updates_def)
  with updateArticle_frame [OF res]
  have "own_field (mem (snd ?R)) 0 ''id'' = own_field (mem ?S) 0 ''id''"
    and "own_field (mem (snd ?R)) 0 ''evil'' = own_field (mem ?S) 0 ''evil''"
    by blast+
  moreover have "own_field (mem ?S) 0 ''id'' = Some (Num 1)"
    and "own_field (mem ?S) 0 ''evil'' = None"
    by (simp_all add: own_field_def spec_updates_def eval_simps)
  moreover have found: "getArticleById ?S (parseInt (mem ?S) (Num 1)) = Ref 0"
    by (simp add: spec_updates_def eval_simps)
  moreover from updateArticle_frame [OF res] found
  have "cell_at (mem (snd ?R)) 2 = cell_at (mem ?S) 2"
    by simp
  moreover have "cell_at (mem ?S) 2 = Some (Obj demo_user)"
    by (simp add: cell_at_def with_cells_def demo_store_def)
  moreover have "fst ?R = True"
    and "own_field (mem (snd ?R)) 0 ''title'' = Some (Str ''New'')"
    by (simp_all add: own_field_def spec_updates_def eval_ops)
  ultimately show ?thesis by simp
qed

subsection \<open>C10: import is all-or-nothing with respect to validation\<close>

text \<open>
  C10: for every store state and every import payload in which at least one article
  fails \<^verbatim>\<open>isValidArticle\<close> or at least one user fails \<^verbatim>\<open>isValidUser\<close>,
  \<^verbatim>\<open>importData\<close> returns failure and leaves the store exactly as it was (both
  collections, the heap and the persistent store).
\<close>

theorem importData_all_or_nothing:
  assumes "(\<exists>ra axs. get_prop (mem s) payload ''articles'' = Some (Ref ra)
             \<and> array_at (mem s) ra = Some axs
             \<and> (\<exists>a \<in> set axs. \<not> isValidArticle (mem s) a))
         \<or> (\<exists>ru uxs. get_prop (mem s) payload ''users'' = Some (Ref ru)
             \<and> array_at (mem s) ru = Some uxs
             \<and> (\<exists>u \<in> set uxs. \<not> isValidUser (mem s) u))"
  shows "importData e payload s = (False, s)"
  using assms
  by (auto simp: importData_def js_every_def list_all_iff split: option.splits jsval.splits)

theorem importData_all_or_nothing_witness:
  "\<not> isValidArticle (mem (with_cells bad_import demo_store)) (Ref 4)
   \<and> importData (demo_env True True) (Ref 7) (with_cells bad_import demo_store)
       = (False, with_cells bad_import demo_store)"
proof -
  let ?s = "with_cells bad_import demo_store"
  have inv: "\<not> isValidArticle (mem ?s) (Ref 4)"
    by (simp add: bad_import_def eval_simps)
  have "get_prop (mem ?s) (Ref 7) ''articles'' = Some (Ref 5)"
    by (simp add: bad_import_def eval_simps)
  moreover have "array_at (mem ?s) 5 = Some [Ref 0, Ref 4]"
    by (simp add: bad_import_def eval_simps)
  ultimately have "\<exists>ra axs. get_prop (mem ?s) (Ref 7) ''articles'' = Some (Ref ra)
             \<and> array_at (mem ?s) ra = Some axs
             \<and> (\<exists>a \<in> set axs. \<not> isValidArticle (mem ?s) a)"
    using inv by auto
  then show ?thesis
    using inv importData_all_or_nothing [of ?s "Ref 7" "demo_env True True"] by blast
qed

end
